theory Spec2Isabelle
  imports Complex_Main "HOL-Library.Sublist"
begin

section \<open>Python values\<close>

text \<open>
  A Python \<open>str\<close> is a sequence of Unicode code points; \<open>len\<close> and slicing count code
  points, not bytes. String literals of the source are written as HOL strings and
  converted with \<open>str\<close>.
\<close>

type_synonym codepoint = nat
type_synonym pystr = "codepoint list"

definition str :: "string \<Rightarrow> pystr" where
  "str s = map of_char s"

text \<open>
  The values of \<open>Dict[str, Any]\<close> as \<open>json.loads\<close> and the extractor produce them. Python's
  \<open>int\<close> and \<open>float\<close> are carried by their numeric value (the code never tells them
  apart); a dict is an association list in insertion order.
\<close>

datatype pyval =
    PNone
  | PBool bool
  | PNum real
  | PStr pystr
  | PList "pyval list"
  | PDict "(pystr \<times> pyval) list"

type_synonym pydict = "(pystr \<times> pyval) list"

text \<open>Truth value testing, as \<open>not x\<close>, \<open>x or y\<close> and \<open>if x\<close> apply it.\<close>

fun truthy :: "pyval \<Rightarrow> bool" where
  "truthy PNone = False"
| "truthy (PBool b) = b"
| "truthy (PNum x) = (x \<noteq> 0)"
| "truthy (PStr s) = (s \<noteq> [])"
| "truthy (PList xs) = (xs \<noteq> [])"
| "truthy (PDict kvs) = (kvs \<noteq> [])"

text \<open>\<open>d.get(k)\<close>: the value, or \<open>None\<close> when the key is missing.\<close>

definition dict_get :: "pydict \<Rightarrow> pystr \<Rightarrow> pyval" where
  "dict_get d k = (case map_of d k of None \<Rightarrow> PNone | Some v \<Rightarrow> v)"

text \<open>\<open>sub in s\<close> on strings: \<open>sub\<close> occurs in \<open>s\<close> as a contiguous run.\<close>

fun py_in :: "pystr \<Rightarrow> pystr \<Rightarrow> bool" where
  "py_in sub [] = (sub = [])"
| "py_in sub (c # cs) = (prefix sub (c # cs) \<or> py_in sub cs)"

text \<open>
  \<open>s.lower()\<close>. The ASCII letters A to Z are mapped to a to z and every other ASCII code
  point to itself. The lower-case mapping of the code points from 128 on is Unicode's table,
  which is not part of the repository: it is the parameter \<open>tbl\<close> (a code point may map to
  several).
\<close>

definition lower_cp :: "(codepoint \<Rightarrow> pystr) \<Rightarrow> codepoint \<Rightarrow> pystr" where
  "lower_cp tbl c =
     (if 65 \<le> c \<and> c \<le> 90 then [c + 32] else if c < 128 then [c] else tbl c)"

definition py_lower :: "(codepoint \<Rightarrow> pystr) \<Rightarrow> pystr \<Rightarrow> pystr" where
  "py_lower tbl s = concat (map (lower_cp tbl) s)"

section \<open>Bot-challenge detector\<close>

text \<open>\<open>BayutDetailScraper._detect_bot_challenge\<close>; the asynchronous scraper's copy is the same.\<close>

definition essential_fields :: "pystr list" where
  "essential_fields = map str [''price'', ''bedrooms'', ''headline'', ''locality'']"

definition missing_fields :: "pydict \<Rightarrow> nat" where
  "missing_fields extracted_data =
     length (filter (\<lambda>field. \<not> truthy (dict_get extracted_data field)) essential_fields)"

definition bot_indicators :: "pystr list" where
  "bot_indicators = map str
     [''please verify you are human'', ''captcha'', ''robot'', ''cloudflare'',
      ''access denied'', ''blocked'', ''rate limit'', ''too many requests'',
      ''suspicious activity'']"

fun scan_indicators :: "pystr list \<Rightarrow> pystr \<Rightarrow> bool" where
  "scan_indicators [] html_lower = False"
| "scan_indicators (indicator # rest) html_lower =
     (if py_in indicator html_lower then True else scan_indicators rest html_lower)"

definition detect_bot_challenge :: "(codepoint \<Rightarrow> pystr) \<Rightarrow> pystr \<Rightarrow> pydict \<Rightarrow> bool" where
  "detect_bot_challenge tbl html extracted_data =
     (if missing_fields extracted_data \<ge> 3 then True
      else scan_indicators bot_indicators (py_lower tbl html))"

text \<open>The number of essential fields whose key is not in the dict at all.\<close>

definition absent_fields :: "pydict \<Rightarrow> nat" where
  "absent_fields extracted_data =
     length (filter (\<lambda>field. map_of extracted_data field = None) essential_fields)"

text \<open>The number of essential fields that are missing or hold an empty value.\<close>

definition empty_value :: "pyval \<Rightarrow> bool" where
  "empty_value v \<longleftrightarrow>
     v = PNone \<or> v = PBool False \<or> v = PNum 0 \<or> v = PStr [] \<or> v = PList [] \<or> v = PDict []"

definition absent_or_empty :: "pydict \<Rightarrow> pystr \<Rightarrow> bool" where
  "absent_or_empty d field \<longleftrightarrow>
     (case map_of d field of None \<Rightarrow> True | Some v \<Rightarrow> empty_value v)"

definition contains_indicator :: "pystr \<Rightarrow> bool" where
  "contains_indicator body \<longleftrightarrow> (\<exists>ind \<in> set bot_indicators. sublist ind body)"

definition identity_table :: "codepoint \<Rightarrow> pystr" where
  "identity_table c = [c]"

definition studio_data :: pydict where
  "studio_data =
     [(str ''price'', PNum 0), (str ''bedrooms'', PNum 0),
      (str ''headline'', PStr (str ''Studio'')), (str ''locality'', PList [])]"

definition full_data :: pydict where
  "full_data =
     [(str ''price'', PNum 1500000), (str ''bedrooms'', PNum 2),
      (str ''headline'', PStr (str ''Sea view'')), (str ''locality'', PStr (str ''Dubai Marina''))]"

section \<open>Identity resolver\<close>

text \<open>
  What the code takes from Python's library and the repository does not hold: Unicode's
  decimal digits beyond ASCII (the class \<open>\d\<close> of \<open>re\<close> on \<open>str\<close>), \<open>json.dumps\<close> with
  \<open>ensure_ascii=False\<close>, and the MD5 digest in hexadecimal.
\<close>

record pylib =
  unicode_decimal :: "codepoint \<Rightarrow> bool"
  json_dumps :: "pyval \<Rightarrow> pystr"
  md5_hexdigest :: "nat list \<Rightarrow> pystr"

datatype exn =
  AttributeError | TypeError | KeyError | IndexError | OverflowError | RuntimeError pystr

definition is_digit :: "pylib \<Rightarrow> codepoint \<Rightarrow> bool" where
  "is_digit lib c = (if c < 128 then 48 \<le> c \<and> c \<le> 57 else unicode_decimal lib c)"

text \<open>
  \<open>DETAIL_ID_RE = re.compile(r"details-(\d+)\.html")\<close>. \<open>match_here\<close> is a match that
  starts at the first code point: the literal, the longest run of digits (a shorter run is
  followed by a digit, never by the dot), the literal \<open>.html\<close>; the value is group 1.
  \<open>re_search\<close> is \<open>DETAIL_ID_RE.search\<close>: the leftmost match.
\<close>

definition match_here :: "pylib \<Rightarrow> pystr \<Rightarrow> pystr option" where
  "match_here lib s =
     (if prefix (str ''details-'') s then
        (let rest = drop 8 s;
             digits = takeWhile (is_digit lib) rest;
             after = dropWhile (is_digit lib) rest
         in if digits \<noteq> [] \<and> prefix (str ''.html'') after then Some digits else None)
      else None)"

fun re_search :: "pylib \<Rightarrow> pystr \<Rightarrow> pystr option" where
  "re_search lib [] = None"
| "re_search lib (c # cs) =
     (case match_here lib (c # cs) of Some g \<Rightarrow> Some g | None \<Rightarrow> re_search lib cs)"

text \<open>\<open>property_id_from_url\<close>: \<open>search\<close> raises \<open>TypeError\<close> on a value that is no string.\<close>

fun property_id_from_url :: "pylib \<Rightarrow> pyval \<Rightarrow> exn + pystr option" where
  "property_id_from_url lib (PStr u) = (if u = [] then Inr None else Inr (re_search lib u))"
| "property_id_from_url lib u = (if \<not> truthy u then Inr None else Inl TypeError)"

text \<open>\<open>s.encode("utf-8", errors="ignore")\<close>: a lone surrogate cannot be encoded and is dropped.\<close>

definition utf8_cp :: "codepoint \<Rightarrow> nat list" where
  "utf8_cp c =
     (if c < 128 then [c]
      else if c < 2048 then [192 + c div 64, 128 + c mod 64]
      else if 55296 \<le> c \<and> c \<le> 57343 then []
      else if c < 65536 then [224 + c div 4096, 128 + (c div 64) mod 64, 128 + c mod 64]
      else [240 + c div 262144, 128 + (c div 4096) mod 64, 128 + (c div 64) mod 64,
            128 + c mod 64])"

definition utf8_encode :: "pystr \<Rightarrow> nat list" where
  "utf8_encode s = concat (map utf8_cp s)"

text \<open>
  The head of \<open>doc_from_item\<close> (and of \<open>extract_property_from_item\<close>, which repeats it):
  position, URL and price of one \<open>itemListElement\<close> entry.
\<close>

fun item_position :: "pyval \<Rightarrow> exn + pyval" where
  "item_position (PDict item) = Inr (dict_get item (str ''position''))"
| "item_position item = Inl AttributeError"

text \<open>
  \<open>offers = main.get("offers", [])\<close>, then \<open>offers[0]\<close> when \<open>offers\<close> is truthy: a dict
  has no key 0, a number cannot be indexed, the first element of a string is a string.
\<close>

fun first_offer :: "pyval \<Rightarrow> exn + pyval option" where
  "first_offer (PList (x # xs)) = Inr (Some x)"
| "first_offer (PStr (c # cs)) = Inr (Some (PStr [c]))"
| "first_offer (PDict (kv # kvs)) = Inl KeyError"
| "first_offer (PNum x) = (if x = 0 then Inr None else Inl TypeError)"
| "first_offer (PBool b) = (if b then Inl TypeError else Inr None)"
| "first_offer v = Inr None"

fun offer_price :: "pyval \<Rightarrow> exn + pyval" where
  "offer_price (PDict offer) =
     (case map_of offer (str ''priceSpecification'') of
        None \<Rightarrow> Inr PNone
      | Some (PDict price_spec) \<Rightarrow> Inr (dict_get price_spec (str ''price''))
      | Some v \<Rightarrow> Inl AttributeError)"
| "offer_price v = Inr PNone"

definition main_price :: "pydict \<Rightarrow> exn + pyval" where
  "main_price main =
     (case first_offer (case map_of main (str ''offers'') of None \<Rightarrow> PList [] | Some v \<Rightarrow> v) of
        Inl e \<Rightarrow> Inl e
      | Inr None \<Rightarrow> Inr PNone
      | Inr (Some offer) \<Rightarrow> offer_price offer)"

text \<open>\<open>url = main.get("url") or None\<close>.\<close>

definition main_url :: "pydict \<Rightarrow> pyval" where
  "main_url main = (let u = dict_get main (str ''url'') in if truthy u then u else PNone)"

text \<open>
  The text the fallback hashes: \<open>(url or json.dumps(main, ensure_ascii=False))[:256]\<close>. The
  slice takes 256 code points. When it is reached the URL is a string or \<open>None\<close>.
\<close>

definition hash_base :: "pylib \<Rightarrow> pyval \<Rightarrow> pyval \<Rightarrow> pystr" where
  "hash_base lib url main =
     take 256 (case url of
                 PStr u \<Rightarrow> if u = [] then json_dumps lib main else u
               | _ \<Rightarrow> json_dumps lib main)"

definition hash_id :: "pylib \<Rightarrow> pyval \<Rightarrow> pyval \<Rightarrow> pystr" where
  "hash_id lib url main = str ''hash_'' @ md5_hexdigest lib (utf8_encode (hash_base lib url main))"

text \<open>The identifier of an entry with main entity \<open>main\<close> and URL \<open>url\<close>.\<close>

definition resolve_id :: "pylib \<Rightarrow> pyval \<Rightarrow> pyval \<Rightarrow> exn + pystr" where
  "resolve_id lib url main =
     (case property_id_from_url lib url of
        Inl e \<Rightarrow> Inl e
      | Inr (Some pid) \<Rightarrow> if pid \<noteq> [] then Inr pid else Inr (hash_id lib url main)
      | Inr None \<Rightarrow> Inr (hash_id lib url main))"

record item_head =
  ih_pos :: pyval
  ih_url :: pyval
  ih_price :: pyval
  ih_pid :: pystr

definition item_head :: "pylib \<Rightarrow> pyval \<Rightarrow> exn + item_head" where
  "item_head lib item =
     (case item_position item of
        Inl e \<Rightarrow> Inl e
      | Inr pos \<Rightarrow>
          (let main = (case item of PDict d \<Rightarrow> dict_get d (str ''mainEntity'') | _ \<Rightarrow> PNone);
               url = (case main of PDict m \<Rightarrow> main_url m | _ \<Rightarrow> PNone)
           in case (case main of PDict m \<Rightarrow> main_price m | _ \<Rightarrow> Inr PNone) of
                Inl e \<Rightarrow> Inl e
              | Inr price \<Rightarrow>
                  (case resolve_id lib url main of
                     Inl e \<Rightarrow> Inl e
                   | Inr pid \<Rightarrow>
                       Inr \<lparr>ih_pos = pos, ih_url = url, ih_price = price, ih_pid = pid\<rparr>)))"

text \<open>The identity resolver on a raw item: the \<open>property_id\<close> of the document built from it.\<close>

definition item_id :: "pylib \<Rightarrow> pyval \<Rightarrow> exn + pystr" where
  "item_id lib item = (case item_head lib item of Inl e \<Rightarrow> Inl e | Inr h \<Rightarrow> Inr (ih_pid h))"

section \<open>Dedup store\<close>

type_synonym timestamp = nat

record appearance =
  ap_page_number :: int
  ap_position :: pyval
  ap_location :: pystr
  ap_price :: pyval
  ap_scraped_at :: timestamp

text \<open>A document of the listings collection, with the fields the scrapers write.\<close>

record item_doc =
  property_id :: pystr
  detailed_url :: pyval
  last_raw_item :: pyval
  last_seen :: timestamp
  last_page :: int
  last_position :: pyval
  last_location :: pystr
  current_price :: pyval
  purpose :: pystr
  locations_seen :: "pystr list"
  appearances :: "appearance list"
  first_seen :: timestamp
  first_page :: int
  first_location :: pystr
  created_at :: timestamp
  detail_scraped :: bool
  detail_scraped_at :: "timestamp option"

text \<open>
  The document \<open>doc_from_item\<close> returns. \<open>location\<close> is set in location mode and by the
  incremental scraper, \<open>city\<close> and \<open>sublocation\<close> in CSV mode.
\<close>

record harvest_doc =
  upsert_key :: pystr
  hd_property_id :: pystr
  hd_position :: pyval
  hd_detailed_url :: pyval
  hd_page_number :: int
  hd_fetched_at :: timestamp
  hd_raw_item :: pyval
  hd_price :: pyval
  hd_purpose :: pystr
  hd_location :: "pystr option"
  hd_city :: "pystr option"
  hd_sublocation :: "pystr option"

record location_info =
  li_city :: pystr
  li_sublocation :: pystr
  li_url :: pystr
  li_listings :: pystr

text \<open>\<open>doc_from_item\<close> of \<open>bayut_ldjson_to_mongo.py\<close>.\<close>

definition doc_from_item ::
  "pylib \<Rightarrow> pyval \<Rightarrow> int \<Rightarrow> timestamp \<Rightarrow> location_info option \<Rightarrow> pystr option \<Rightarrow> pystr
   \<Rightarrow> exn + harvest_doc" where
  "doc_from_item lib item page_num fetched_at loc_info location purp =
     (case item_head lib item of
        Inl e \<Rightarrow> Inl e
      | Inr h \<Rightarrow>
          Inr \<lparr>upsert_key = ih_pid h, hd_property_id = ih_pid h, hd_position = ih_pos h,
               hd_detailed_url = ih_url h, hd_page_number = page_num,
               hd_fetched_at = fetched_at, hd_raw_item = item, hd_price = ih_price h,
               hd_purpose = purp,
               hd_location =
                 (case loc_info of
                    Some li \<Rightarrow> None
                  | None \<Rightarrow> (case location of
                              Some l \<Rightarrow> if l \<noteq> [] then Some l else None
                            | None \<Rightarrow> None)),
               hd_city = map_option li_city loc_info,
               hd_sublocation = map_option li_sublocation loc_info\<rparr>)"

text \<open>
  \<open>location_str = d.get("location") or f"{d.get('city', '')}/{d.get('sublocation', '')}"\<close>
\<close>

definition location_str :: "harvest_doc \<Rightarrow> pystr" where
  "location_str d =
     (case hd_location d of
        Some l \<Rightarrow> if l \<noteq> [] then l else
          (case hd_city d of None \<Rightarrow> [] | Some c \<Rightarrow> c) @ str ''/'' @
          (case hd_sublocation d of None \<Rightarrow> [] | Some c \<Rightarrow> c)
      | None \<Rightarrow>
          (case hd_city d of None \<Rightarrow> [] | Some c \<Rightarrow> c) @ str ''/'' @
          (case hd_sublocation d of None \<Rightarrow> [] | Some c \<Rightarrow> c))"

definition appearance_of :: "harvest_doc \<Rightarrow> appearance" where
  "appearance_of d =
     \<lparr>ap_page_number = hd_page_number d, ap_position = hd_position d,
      ap_location = location_str d, ap_price = hd_price d, ap_scraped_at = hd_fetched_at d\<rparr>"

text \<open>\<open>$slice: -n\<close>: the last \<open>n\<close> elements of the array.\<close>

definition slice_last :: "nat \<Rightarrow> 'a list \<Rightarrow> 'a list" where
  "slice_last n xs = drop (length xs - n) xs"

text \<open>\<open>$addToSet\<close>: the value is appended unless the array holds it.\<close>

definition add_to_set :: "'a \<Rightarrow> 'a list \<Rightarrow> 'a list" where
  "add_to_set x xs = (if x \<in> set xs then xs else xs @ [x])"

text \<open>
  The update document on a document that matches the filter: \<open>$set\<close>, \<open>$addToSet\<close> and
  \<open>$push\<close> with \<open>$slice: -100\<close>; \<open>$setOnInsert\<close> does nothing. \<open>bulk_upsert_items\<close> sets
  \<open>detail_scraped\<close> on insertion only; \<open>_bulk_insert_properties\<close> of the incremental
  scraper has it under \<open>$set\<close> (\<open>reset\<close>) and is the same otherwise.
\<close>

definition update_matched :: "bool \<Rightarrow> harvest_doc \<Rightarrow> item_doc \<Rightarrow> item_doc" where
  "update_matched reset d x =
     x\<lparr>property_id := hd_property_id d,
       detail_scraped := (if reset then False else detail_scraped x),
       detailed_url := hd_detailed_url d,
       last_raw_item := hd_raw_item d,
       last_seen := hd_fetched_at d,
       last_page := hd_page_number d,
       last_position := hd_position d,
       last_location := location_str d,
       current_price := hd_price d,
       purpose := hd_purpose d,
       locations_seen := add_to_set (location_str d) (locations_seen x),
       appearances := slice_last 100 (appearances x @ [appearance_of d])\<rparr>"

text \<open>The document an upsert inserts when none matches: all four operators apply.\<close>

definition inserted_doc :: "harvest_doc \<Rightarrow> item_doc" where
  "inserted_doc d =
     \<lparr>property_id = hd_property_id d,
      detailed_url = hd_detailed_url d,
      last_raw_item = hd_raw_item d,
      last_seen = hd_fetched_at d,
      last_page = hd_page_number d,
      last_position = hd_position d,
      last_location = location_str d,
      current_price = hd_price d,
      purpose = hd_purpose d,
      locations_seen = [location_str d],
      appearances = slice_last 100 [appearance_of d],
      first_seen = hd_fetched_at d,
      first_page = hd_page_number d,
      first_location = location_str d,
      created_at = hd_fetched_at d,
      detail_scraped = False,
      detail_scraped_at = None\<rparr>"

text \<open>
  \<open>UpdateOne({"property_id": d["_upsert_key"]}, ..., upsert=True)\<close> on the collection, a
  list of documents: the first document whose \<open>property_id\<close> is the key is updated; when
  there is none, one is inserted.
\<close>

fun update_one :: "bool \<Rightarrow> harvest_doc \<Rightarrow> item_doc list \<Rightarrow> item_doc list" where
  "update_one reset d [] = [inserted_doc d]"
| "update_one reset d (x # xs) =
     (if property_id x = upsert_key d then update_matched reset d x # xs
      else x # update_one reset d xs)"

text \<open>
  \<open>bulk_upsert_items\<close>: one \<open>UpdateOne\<close> per document, sent as one \<open>bulk_write\<close> with
  \<open>ordered=False\<close>. The operations are applied in the order of the list, and the store
  does not fail.
\<close>

definition bulk_upsert_items :: "harvest_doc list \<Rightarrow> item_doc list \<Rightarrow> item_doc list" where
  "bulk_upsert_items docs coll = fold (update_one False) docs coll"

definition bulk_insert_properties :: "harvest_doc list \<Rightarrow> item_doc list \<Rightarrow> item_doc list" where
  "bulk_insert_properties properties coll = fold (update_one True) properties coll"

text \<open>\<open>find_one({'property_id': pid})\<close> and \<open>property_exists\<close>.\<close>

definition find_one :: "item_doc list \<Rightarrow> pystr \<Rightarrow> item_doc option" where
  "find_one coll pid = find (\<lambda>x. property_id x = pid) coll"

definition property_exists :: "item_doc list \<Rightarrow> pystr \<Rightarrow> bool" where
  "property_exists coll pid = (find_one coll pid \<noteq> None)"

text \<open>The invariant of an item, and of the collection.\<close>

definition item_ok :: "item_doc \<Rightarrow> bool" where
  "item_ok x \<longleftrightarrow> length (appearances x) \<le> 100 \<and> distinct (locations_seen x)"

definition coll_ok :: "item_doc list \<Rightarrow> bool" where
  "coll_ok coll \<longleftrightarrow> distinct (map property_id coll) \<and> list_all item_ok coll"

text \<open>The documents a crawl builds carry their identifier as upsert key.\<close>

definition keyed :: "harvest_doc \<Rightarrow> bool" where
  "keyed d \<longleftrightarrow> upsert_key d = hd_property_id d"

text \<open>The observations of the item \<open>pid\<close> among the documents, in their order.\<close>

definition observations :: "pystr \<Rightarrow> harvest_doc list \<Rightarrow> appearance list" where
  "observations pid docs = map appearance_of (filter (\<lambda>d. upsert_key d = pid) docs)"

section \<open>Listing harvester\<close>

text \<open>
  What one page request meets: the outcome of \<open>sess.get\<close>; the outcome of saving the HTML,
  \<open>extract_single_ldjson\<close> (it parses with BeautifulSoup and raises \<open>RuntimeError\<close> when it
  finds no block) and saving the JSON; the clock (one reading for the whole page); and, for
  the incremental scraper, whether a shutdown signal arrives while the page is processed.
\<close>

datatype http_outcome = RequestError | Response int pystr

record page_env =
  pe_response :: http_outcome
  pe_ldjson :: "exn + pyval"
  pe_now :: timestamp
  pe_signal :: bool

text \<open>\<open>for el in elts\<close>: a dict yields its keys, a string its characters, a number raises.\<close>

fun iter_elts :: "pyval \<Rightarrow> exn + pyval list" where
  "iter_elts (PList xs) = Inr xs"
| "iter_elts (PDict kvs) = Inr (map (\<lambda>kv. PStr (fst kv)) kvs)"
| "iter_elts (PStr s) = Inr (map (\<lambda>c. PStr [c]) s)"
| "iter_elts PNone = Inr []"
| "iter_elts v = Inl TypeError"

text \<open>\<open>elts = ldjson.get("itemListElement") or []\<close>\<close>

definition item_list_element :: "pydict \<Rightarrow> pyval" where
  "item_list_element ldjson =
     (let e = dict_get ldjson (str ''itemListElement'') in if truthy e then e else PList [])"

subsection \<open>CSV mode: \<open>run_csv_mode\<close>\<close>

record csv_state =
  cs_coll :: "item_doc list"
  consecutive_empty_pages :: nat
  location_items :: nat
  cs_requests :: "nat list"

text \<open>The documents of a page: an entry whose conversion raises is skipped with a warning.\<close>

definition csv_items ::
  "pylib \<Rightarrow> location_info \<Rightarrow> nat \<Rightarrow> timestamp \<Rightarrow> pyval \<Rightarrow> exn + harvest_doc list" where
  "csv_items lib li page_num fetched_at ldjson =
     (case ldjson of
        PDict d \<Rightarrow>
          (case iter_elts (item_list_element d) of
             Inl e \<Rightarrow> Inl e
           | Inr elts \<Rightarrow>
               Inr (concat (map (\<lambda>el.
                      case doc_from_item lib el (int page_num) fetched_at (Some li) None
                             (str ''for-sale'') of
                        Inl e \<Rightarrow> [] | Inr doc \<Rightarrow> [doc]) elts)))
      | _ \<Rightarrow> Inr [])"

text \<open>
  One iteration of the page loop of \<open>run_csv_mode\<close>, after the check of the counter at its
  top. This loop does not look for words in the body; what it tests is the extracted value.
\<close>

definition csv_page :: "pylib \<Rightarrow> location_info \<Rightarrow> nat \<Rightarrow> page_env \<Rightarrow> csv_state \<Rightarrow> csv_state" where
  "csv_page lib li page_num env s =
     (let s1 = s\<lparr>cs_requests := cs_requests s @ [page_num]\<rparr>;
          empty = s1\<lparr>consecutive_empty_pages := consecutive_empty_pages s + 1\<rparr>
      in case pe_response env of
           RequestError \<Rightarrow> empty
         | Response status_code html \<Rightarrow>
             if status_code \<noteq> 200 then empty
             else if length html < 1000 then empty
             else (case pe_ldjson env of
                     Inl e \<Rightarrow> empty
                   | Inr ldjson \<Rightarrow>
                       if \<not> truthy ldjson then empty
                       else (case csv_items lib li page_num (pe_now env) ldjson of
                               Inl e \<Rightarrow> empty
                             | Inr items \<Rightarrow>
                                 if items = [] then empty
                                 else s1\<lparr>consecutive_empty_pages := 0,
                                         cs_coll := bulk_upsert_items items (cs_coll s),
                                         location_items := location_items s + length items\<rparr>)))"

text \<open>\<open>for page_num in range(1, max_pages + 1)\<close> with the \<open>break\<close> at its top.\<close>

fun csv_pages ::
  "pylib \<Rightarrow> location_info \<Rightarrow> (nat \<Rightarrow> page_env) \<Rightarrow> nat list \<Rightarrow> csv_state \<Rightarrow> csv_state" where
  "csv_pages lib li world [] s = s"
| "csv_pages lib li world (page_num # rest) s =
     (if consecutive_empty_pages s \<ge> 5 then s
      else csv_pages lib li world rest (csv_page lib li page_num (world page_num) s))"

definition scrape_location ::
  "pylib \<Rightarrow> location_info \<Rightarrow> (nat \<Rightarrow> page_env) \<Rightarrow> nat \<Rightarrow> item_doc list \<Rightarrow> csv_state" where
  "scrape_location lib li world max_pages coll =
     csv_pages lib li world [1 ..< Suc max_pages]
       \<lparr>cs_coll = coll, consecutive_empty_pages = 0, location_items = 0, cs_requests = []\<rparr>"

text \<open>A page that the loop counts as empty or invalid, by what it met.\<close>

definition non_2xx :: "page_env \<Rightarrow> bool" where
  "non_2xx env \<longleftrightarrow>
     (case pe_response env of RequestError \<Rightarrow> False | Response c html \<Rightarrow> c < 200 \<or> 299 < c)"

definition small_body :: "page_env \<Rightarrow> bool" where
  "small_body env \<longleftrightarrow>
     (case pe_response env of
        RequestError \<Rightarrow> False | Response c html \<Rightarrow> c = 200 \<and> length html < 1000)"

definition page_error :: "page_env \<Rightarrow> bool" where
  "page_error env \<longleftrightarrow>
     (case pe_response env of
        RequestError \<Rightarrow> True
      | Response c html \<Rightarrow> c = 200 \<and> 1000 \<le> length html \<and> isl (pe_ldjson env))"

definition page_items :: "pylib \<Rightarrow> location_info \<Rightarrow> nat \<Rightarrow> page_env \<Rightarrow> harvest_doc list option" where
  "page_items lib li page_num env =
     (case pe_response env of
        RequestError \<Rightarrow> None
      | Response c html \<Rightarrow>
          if c = 200 \<and> 1000 \<le> length html then
            (case pe_ldjson env of
               Inl e \<Rightarrow> None
             | Inr ldjson \<Rightarrow>
                 (case csv_items lib li page_num (pe_now env) ldjson of
                    Inl e \<Rightarrow> None | Inr items \<Rightarrow> Some items))
          else None)"

subsection \<open>CSV-driven scraper: \<open>run\<close> of \<open>bayut_csv_scraper.py\<close>\<close>

text \<open>
  This file has its own \<open>DETAIL_ID_RE\<close>, \<open>doc_from_item\<close> and \<open>bulk_upsert_items\<close>.

  \<open>DETAIL_ID_RE = re.compile(r"details-(\\d+)\\.html")\<close>: in the raw string every pair of
  backslashes is an escaped backslash, so the pattern is the literal \<open>details-\<close>, a
  backslash (code point 92), one or more letters d (code point 100; the longest run, since
  a shorter one is followed by a d and not by the backslash), a backslash, any character but
  a line feed (code point 10), and the literal \<open>html\<close>. Group 1 is the backslash with the
  letters.
\<close>

definition match_here_csv :: "pystr \<Rightarrow> pystr option" where
  "match_here_csv s =
     (if prefix (str ''details-'' @ [92]) s then
        (let rest = drop 9 s;
             ds = takeWhile (\<lambda>c. c = 100) rest;
             after = dropWhile (\<lambda>c. c = 100) rest
         in if ds \<noteq> []
               \<and> (case after of
                     b # x # t \<Rightarrow> b = 92 \<and> x \<noteq> 10 \<and> prefix (str ''html'') t
                   | _ \<Rightarrow> False)
            then Some (92 # ds) else None)
      else None)"

fun re_search_csv :: "pystr \<Rightarrow> pystr option" where
  "re_search_csv [] = None"
| "re_search_csv (c # cs) =
     (case match_here_csv (c # cs) of Some g \<Rightarrow> Some g | None \<Rightarrow> re_search_csv cs)"

fun property_id_from_url_csv :: "pyval \<Rightarrow> exn + pystr option" where
  "property_id_from_url_csv (PStr u) = (if u = [] then Inr None else Inr (re_search_csv u))"
| "property_id_from_url_csv u = (if \<not> truthy u then Inr None else Inl TypeError)"

text \<open>\<open>doc_from_item\<close>: the lines of the other file, with this pattern and these keys.\<close>

record scraper_doc =
  sd_upsert_key :: pystr
  sd_property_id :: pystr
  sd_position :: pyval
  sd_details_url :: pyval
  sd_page_number :: int
  sd_city :: pystr
  sd_sublocation :: pystr
  sd_location_url :: pystr
  sd_estimated_listings :: pystr
  sd_fetched_at :: timestamp
  sd_raw_item :: pyval
  sd_price :: pyval

definition doc_from_item_csv ::
  "pylib \<Rightarrow> pyval \<Rightarrow> int \<Rightarrow> timestamp \<Rightarrow> location_info \<Rightarrow> exn + scraper_doc" where
  "doc_from_item_csv lib item page_num fetched_at li =
     (case item_position item of
        Inl e \<Rightarrow> Inl e
      | Inr pos \<Rightarrow>
          (let main = (case item of PDict d \<Rightarrow> dict_get d (str ''mainEntity'') | _ \<Rightarrow> PNone);
               url = (case main of PDict m \<Rightarrow> main_url m | _ \<Rightarrow> PNone)
           in case (case main of PDict m \<Rightarrow> main_price m | _ \<Rightarrow> Inr PNone) of
                Inl e \<Rightarrow> Inl e
              | Inr price \<Rightarrow>
                  (case property_id_from_url_csv url of
                     Inl e \<Rightarrow> Inl e
                   | Inr found \<Rightarrow>
                       (let pid = (case found of
                                     Some g \<Rightarrow> if g \<noteq> [] then g else hash_id lib url main
                                   | None \<Rightarrow> hash_id lib url main)
                        in Inr \<lparr>sd_upsert_key = pid, sd_property_id = pid, sd_position = pos,
                                sd_details_url = url, sd_page_number = page_num,
                                sd_city = li_city li, sd_sublocation = li_sublocation li,
                                sd_location_url = li_url li,
                                sd_estimated_listings = li_listings li,
                                sd_fetched_at = fetched_at, sd_raw_item = item,
                                sd_price = price\<rparr>))))"

text \<open>A document of the collection as \<open>bulk_upsert_items\<close> of this file writes it.\<close>

record scraper_appearance =
  sa_page_number :: int
  sa_position :: pyval
  sa_city :: pystr
  sa_sublocation :: pystr
  sa_price :: pyval
  sa_scraped_at :: timestamp

record listing_doc =
  ld_property_id :: pystr
  ld_details_url :: pyval
  ld_last_raw_item :: pyval
  ld_last_seen :: timestamp
  ld_last_page :: int
  ld_last_position :: pyval
  ld_last_city :: pystr
  ld_last_sublocation :: pystr
  ld_current_price :: pyval
  ld_cities_seen :: "pystr list"
  ld_sublocations_seen :: "pystr list"
  ld_appearances :: "scraper_appearance list"
  ld_first_seen :: timestamp
  ld_first_page :: int
  ld_first_city :: pystr
  ld_first_sublocation :: pystr
  ld_detail_scraped :: bool
  ld_created_at :: timestamp

definition appearance_csv :: "scraper_doc \<Rightarrow> scraper_appearance" where
  "appearance_csv d =
     \<lparr>sa_page_number = sd_page_number d, sa_position = sd_position d, sa_city = sd_city d,
      sa_sublocation = sd_sublocation d, sa_price = sd_price d,
      sa_scraped_at = sd_fetched_at d\<rparr>"

definition update_matched_csv :: "scraper_doc \<Rightarrow> listing_doc \<Rightarrow> listing_doc" where
  "update_matched_csv d x =
     x\<lparr>ld_property_id := sd_property_id d,
       ld_details_url := sd_details_url d,
       ld_last_raw_item := sd_raw_item d,
       ld_last_seen := sd_fetched_at d,
       ld_last_page := sd_page_number d,
       ld_last_position := sd_position d,
       ld_last_city := sd_city d,
       ld_last_sublocation := sd_sublocation d,
       ld_current_price := sd_price d,
       ld_cities_seen := add_to_set (sd_city d) (ld_cities_seen x),
       ld_sublocations_seen := add_to_set (sd_sublocation d) (ld_sublocations_seen x),
       ld_appearances := slice_last 100 (ld_appearances x @ [appearance_csv d])\<rparr>"

definition inserted_doc_csv :: "scraper_doc \<Rightarrow> listing_doc" where
  "inserted_doc_csv d =
     \<lparr>ld_property_id = sd_property_id d,
      ld_details_url = sd_details_url d,
      ld_last_raw_item = sd_raw_item d,
      ld_last_seen = sd_fetched_at d,
      ld_last_page = sd_page_number d,
      ld_last_position = sd_position d,
      ld_last_city = sd_city d,
      ld_last_sublocation = sd_sublocation d,
      ld_current_price = sd_price d,
      ld_cities_seen = [sd_city d],
      ld_sublocations_seen = [sd_sublocation d],
      ld_appearances = slice_last 100 [appearance_csv d],
      ld_first_seen = sd_fetched_at d,
      ld_first_page = sd_page_number d,
      ld_first_city = sd_city d,
      ld_first_sublocation = sd_sublocation d,
      ld_detail_scraped = False,
      ld_created_at = sd_fetched_at d\<rparr>"

fun update_one_csv :: "scraper_doc \<Rightarrow> listing_doc list \<Rightarrow> listing_doc list" where
  "update_one_csv d [] = [inserted_doc_csv d]"
| "update_one_csv d (x # xs) =
     (if ld_property_id x = sd_upsert_key d then update_matched_csv d x # xs
      else x # update_one_csv d xs)"

definition bulk_upsert_items_csv :: "scraper_doc list \<Rightarrow> listing_doc list \<Rightarrow> listing_doc list" where
  "bulk_upsert_items_csv docs coll = fold update_one_csv docs coll"

record run_state =
  rs_coll :: "listing_doc list"
  rs_consecutive_empty_pages :: nat
  rs_location_items :: nat
  rs_requests :: "nat list"

text \<open>The documents of a page: an entry whose conversion raises is skipped with a warning.\<close>

definition run_items ::
  "pylib \<Rightarrow> location_info \<Rightarrow> nat \<Rightarrow> timestamp \<Rightarrow> pyval \<Rightarrow> exn + scraper_doc list" where
  "run_items lib li page_num fetched_at ldjson =
     (case ldjson of
        PDict d \<Rightarrow>
          (case iter_elts (item_list_element d) of
             Inl e \<Rightarrow> Inl e
           | Inr elts \<Rightarrow>
               Inr (concat (map (\<lambda>el.
                      case doc_from_item_csv lib el (int page_num) fetched_at li of
                        Inl e \<Rightarrow> [] | Inr doc \<Rightarrow> [doc]) elts)))
      | _ \<Rightarrow> Inr [])"

text \<open>\<open>"captcha" in html.lower() or "cloudflare" in html.lower()\<close>\<close>

definition blocking_indicator :: "(codepoint \<Rightarrow> pystr) \<Rightarrow> pystr \<Rightarrow> bool" where
  "blocking_indicator tbl html \<longleftrightarrow>
     py_in (str ''captcha'') (py_lower tbl html) \<or> py_in (str ''cloudflare'') (py_lower tbl html)"

text \<open>
  One iteration of the page loop, after the check of the counter at its top. The body is
  tested for the two words before anything is extracted from it, and there is no test of
  the extracted value before the entries are read.
\<close>

definition run_page ::
  "(codepoint \<Rightarrow> pystr) \<Rightarrow> pylib \<Rightarrow> location_info \<Rightarrow> nat \<Rightarrow> page_env \<Rightarrow> run_state \<Rightarrow> run_state" where
  "run_page tbl lib li page_num env s =
     (let s1 = s\<lparr>rs_requests := rs_requests s @ [page_num]\<rparr>;
          empty = s1\<lparr>rs_consecutive_empty_pages := rs_consecutive_empty_pages s + 1\<rparr>
      in case pe_response env of
           RequestError \<Rightarrow> empty
         | Response status_code html \<Rightarrow>
             if status_code \<noteq> 200 then empty
             else if length html < 1000 then empty
             else if blocking_indicator tbl html then empty
             else (case pe_ldjson env of
                     Inl e \<Rightarrow> empty
                   | Inr ldjson \<Rightarrow>
                       (case run_items lib li page_num (pe_now env) ldjson of
                          Inl e \<Rightarrow> empty
                        | Inr items \<Rightarrow>
                            if items = [] then empty
                            else s1\<lparr>rs_consecutive_empty_pages := 0,
                                    rs_coll := bulk_upsert_items_csv items (rs_coll s),
                                    rs_location_items := rs_location_items s + length items\<rparr>)))"

text \<open>\<open>for page_num in range(1, max_pages + 1)\<close> with the \<open>break\<close> at its top.\<close>

fun run_page_loop ::
  "(codepoint \<Rightarrow> pystr) \<Rightarrow> pylib \<Rightarrow> location_info \<Rightarrow> (nat \<Rightarrow> page_env) \<Rightarrow> nat list
   \<Rightarrow> run_state \<Rightarrow> run_state" where
  "run_page_loop tbl lib li world [] s = s"
| "run_page_loop tbl lib li world (page_num # rest) s =
     (if rs_consecutive_empty_pages s \<ge> 5 then s
      else run_page_loop tbl lib li world rest (run_page tbl lib li page_num (world page_num) s))"

definition run_location ::
  "(codepoint \<Rightarrow> pystr) \<Rightarrow> pylib \<Rightarrow> location_info \<Rightarrow> (nat \<Rightarrow> page_env) \<Rightarrow> nat
   \<Rightarrow> listing_doc list \<Rightarrow> run_state" where
  "run_location tbl lib li world max_pages coll =
     run_page_loop tbl lib li world [1 ..< Suc max_pages]
       \<lparr>rs_coll = coll, rs_consecutive_empty_pages = 0, rs_location_items = 0,
        rs_requests = []\<rparr>"

text \<open>What this loop reads from a page, and a page it counts as empty.\<close>

definition blocked_body :: "(codepoint \<Rightarrow> pystr) \<Rightarrow> page_env \<Rightarrow> bool" where
  "blocked_body tbl env \<longleftrightarrow>
     (case pe_response env of
        RequestError \<Rightarrow> False
      | Response c html \<Rightarrow> c = 200 \<and> 1000 \<le> length html \<and> blocking_indicator tbl html)"

definition run_page_items ::
  "(codepoint \<Rightarrow> pystr) \<Rightarrow> pylib \<Rightarrow> location_info \<Rightarrow> nat \<Rightarrow> page_env
   \<Rightarrow> scraper_doc list option" where
  "run_page_items tbl lib li page_num env =
     (case pe_response env of
        RequestError \<Rightarrow> None
      | Response c html \<Rightarrow>
          if c = 200 \<and> 1000 \<le> length html \<and> \<not> blocking_indicator tbl html then
            (case pe_ldjson env of
               Inl e \<Rightarrow> None
             | Inr ldjson \<Rightarrow>
                 (case run_items lib li page_num (pe_now env) ldjson of
                    Inl e \<Rightarrow> None | Inr items \<Rightarrow> Some items))
          else None)"

definition run_empty_page ::
  "(codepoint \<Rightarrow> pystr) \<Rightarrow> pylib \<Rightarrow> location_info \<Rightarrow> nat \<Rightarrow> page_env \<Rightarrow> bool" where
  "run_empty_page tbl lib li page_num env \<longleftrightarrow>
     (case run_page_items tbl lib li page_num env of None \<Rightarrow> True | Some items \<Rightarrow> items = [])"

subsection \<open>Incremental scraper\<close>

definition CONSECUTIVE_EXISTING_LIMIT :: nat where
  "CONSECUTIVE_EXISTING_LIMIT = 2"

record page_result =
  pr_new :: nat
  pr_existing :: nat
  pr_errors :: nat

record inc_state =
  is_coll :: "item_doc list"
  pages_scraped :: nat
  new_properties :: nat
  existing_properties :: nat
  stats_consecutive_existing :: nat
  stats_errors :: "nat list"
  is_requests :: "nat list"
  shutdown_requested :: bool

text \<open>\<open>extract_property_from_item\<close>: any exception is caught and \<open>None\<close> returned.\<close>

definition extract_property_from_item ::
  "pylib \<Rightarrow> pyval \<Rightarrow> nat \<Rightarrow> timestamp \<Rightarrow> harvest_doc option" where
  "extract_property_from_item lib item page_num now =
     (case item_head lib item of
        Inl e \<Rightarrow> None
      | Inr h \<Rightarrow>
          Some \<lparr>upsert_key = ih_pid h, hd_property_id = ih_pid h, hd_position = ih_pos h,
                hd_detailed_url = ih_url h, hd_page_number = int page_num,
                hd_fetched_at = now, hd_raw_item = item, hd_price = ih_price h,
                hd_purpose = str ''for-sale'', hd_location = Some (str ''UAE''),
                hd_city = None, hd_sublocation = None\<rparr>)"

text \<open>
  The loop of \<open>_process_properties\<close> over the entries of one page. Its variables are
  \<open>new_properties\<close>, \<open>result\<close> and \<open>consecutive_existing\<close>; the collection is not written
  before the loop ends. The \<open>break\<close> leaves the rest of the page unread.
\<close>

fun process_elts ::
  "pylib \<Rightarrow> item_doc list \<Rightarrow> nat \<Rightarrow> timestamp \<Rightarrow> pyval list
   \<Rightarrow> harvest_doc list \<times> page_result \<times> nat \<Rightarrow> harvest_doc list \<times> page_result \<times> nat" where
  "process_elts lib coll page_num now [] acc = acc"
| "process_elts lib coll page_num now (el # els) (new_props, result, consecutive_existing) =
     (case extract_property_from_item lib el page_num now of
        None \<Rightarrow>
          process_elts lib coll page_num now els
            (new_props, result\<lparr>pr_errors := pr_errors result + 1\<rparr>, consecutive_existing)
      | Some prop_doc \<Rightarrow>
          if property_exists coll (hd_property_id prop_doc) then
            (if consecutive_existing + 1 \<ge> CONSECUTIVE_EXISTING_LIMIT then
               (new_props, result\<lparr>pr_existing := pr_existing result + 1\<rparr>,
                consecutive_existing + 1)
             else
               process_elts lib coll page_num now els
                 (new_props, result\<lparr>pr_existing := pr_existing result + 1\<rparr>,
                  consecutive_existing + 1))
          else
            process_elts lib coll page_num now els
              (new_props @ [prop_doc], result\<lparr>pr_new := pr_new result + 1\<rparr>, 0))"

definition no_result :: page_result where
  "no_result = \<lparr>pr_new = 0, pr_existing = 0, pr_errors = 0\<rparr>"

definition error_result :: page_result where
  "error_result = \<lparr>pr_new = 0, pr_existing = 0, pr_errors = 1\<rparr>"

text \<open>
  \<open>_process_properties\<close>. \<open>consecutive_existing\<close> is a local variable, set to 0 before the
  loop; \<open>self.stats['consecutive_existing']\<close> is written only when it has reached the limit.
  An \<open>itemListElement\<close> that cannot be iterated raises out of the function.
\<close>

definition process_properties ::
  "pylib \<Rightarrow> pyval \<Rightarrow> nat \<Rightarrow> timestamp \<Rightarrow> inc_state \<Rightarrow> exn + page_result \<times> inc_state" where
  "process_properties lib ldjson page_num now st =
     (case ldjson of
        PDict d \<Rightarrow>
          (case iter_elts (item_list_element d) of
             Inl e \<Rightarrow> Inl e
           | Inr elts \<Rightarrow>
               if elts = [] then Inr (no_result, st)
               else
                 (case process_elts lib (is_coll st) page_num now elts ([], no_result, 0) of
                    (new_props, result, consecutive_existing) \<Rightarrow>
                      Inr (result,
                           st\<lparr>is_coll :=
                                (if new_props \<noteq> [] then bulk_insert_properties new_props (is_coll st)
                                 else is_coll st),
                              stats_consecutive_existing :=
                                (if consecutive_existing \<ge> CONSECUTIVE_EXISTING_LIMIT
                                 then consecutive_existing
                                 else stats_consecutive_existing st)\<rparr>)))
      | _ \<Rightarrow> Inr (no_result, st))"

text \<open>\<open>process_page\<close>: every failure, an exception included, gives the error result.\<close>

definition process_page ::
  "pylib \<Rightarrow> nat \<Rightarrow> page_env \<Rightarrow> inc_state \<Rightarrow> page_result \<times> inc_state" where
  "process_page lib page_num env st =
     (let st1 = st\<lparr>is_requests := is_requests st @ [page_num]\<rparr>;
          raised = (error_result, st1\<lparr>stats_errors := stats_errors st1 @ [page_num]\<rparr>)
      in case pe_response env of
           RequestError \<Rightarrow> raised
         | Response status_code html \<Rightarrow>
             if status_code \<noteq> 200 then (error_result, st1)
             else if length html < 1000 then (error_result, st1)
             else (case pe_ldjson env of
                     Inl e \<Rightarrow> raised
                   | Inr ldjson \<Rightarrow>
                       if \<not> truthy ldjson then (error_result, st1)
                       else (case process_properties lib ldjson page_num (pe_now env) st1 of
                               Inl e \<Rightarrow> raised
                             | Inr r \<Rightarrow> r)))"

text \<open>
  The \<open>while\<close> loop of \<open>run\<close> over the pages \<open>1 .. max_pages\<close>; the second component is
  \<open>should_stop\<close>.
\<close>

fun run_pages ::
  "pylib \<Rightarrow> (nat \<Rightarrow> page_env) \<Rightarrow> nat list \<Rightarrow> inc_state \<Rightarrow> inc_state \<times> bool" where
  "run_pages lib world [] st = (st, False)"
| "run_pages lib world (page_num # rest) st =
     (if shutdown_requested st then (st, False)
      else
        (case process_page lib page_num (world page_num) st of
           (page_result, st1) \<Rightarrow>
             (let st2 = st1\<lparr>pages_scraped := pages_scraped st1 + 1,
                            new_properties := new_properties st1 + pr_new page_result,
                            existing_properties :=
                              existing_properties st1 + pr_existing page_result,
                            shutdown_requested :=
                              shutdown_requested st1 \<or> pe_signal (world page_num)\<rparr>
              in if stats_consecutive_existing st2 \<ge> CONSECUTIVE_EXISTING_LIMIT
                 then (st2, True)
                 else run_pages lib world rest st2)))"

definition initial_inc_state :: "item_doc list \<Rightarrow> inc_state" where
  "initial_inc_state coll =
     \<lparr>is_coll = coll, pages_scraped = 0, new_properties = 0, existing_properties = 0,
      stats_consecutive_existing = 0, stats_errors = [], is_requests = [],
      shutdown_requested = False\<rparr>"

datatype stop_reason = ConsecutiveExisting | Shutdown | Completed

definition run_incremental ::
  "pylib \<Rightarrow> (nat \<Rightarrow> page_env) \<Rightarrow> nat \<Rightarrow> item_doc list \<Rightarrow> inc_state \<times> stop_reason" where
  "run_incremental lib world max_pages coll =
     (case run_pages lib world [1 ..< Suc max_pages] (initial_inc_state coll) of
        (st, should_stop) \<Rightarrow>
          (st, if should_stop then ConsecutiveExisting
               else if shutdown_requested st then Shutdown else Completed))"

section \<open>Detail fetch engine\<close>

text \<open>
  The sequential scraper, \<open>bayut_detail_scraper.py\<close>; of the asynchronous one, its cooldown.
\<close>

definition BOT_DETECTION_THRESHOLD :: nat where
  "BOT_DETECTION_THRESHOLD = 3"

definition INITIAL_COOLDOWN :: int where
  "INITIAL_COOLDOWN = 15 * 60"

text \<open>
  A document of \<open>property_details\<close>. Every writer sets the first four fields; the others
  exist once an update has set them, and \<open>$set\<close> leaves the fields it does not name.
\<close>

record detail_record =
  dr_url :: pyval
  dr_scraped_at :: timestamp
  dr_extraction_success :: bool
  dr_bot_challenge :: "bool option"
  dr_extracted_data :: "pydict option"
  dr_error :: "pystr option"

text \<open>
  The scraper object with the two collections it writes. \<open>property_details\<close> has a unique
  index on \<open>property_id\<close> and is a map from it. \<open>requests_sent\<close> lists the URLs
  \<open>session.get\<close> was called with, \<open>cooldown_waits\<close> the lengths of the cooldowns that ran to
  their end.
\<close>

record scraper =
  details_coll :: "pystr \<rightharpoonup> detail_record"
  properties_coll :: "item_doc list"
  stats_processed :: nat
  stats_success :: nat
  stats_failed :: nat
  stats_skipped :: nat
  stats_bot_challenges :: nat
  stats_cooldowns :: nat
  stats_error_list :: "(pystr \<times> pystr) list"
  consecutive_challenges :: nat
  current_cooldown :: int
  cooldown_count :: nat
  last_challenge_time :: "timestamp option"
  requests_sent :: "pyval list"
  cooldown_waits :: "int list"
  SHUTDOWN_REQUESTED :: bool

text \<open>
  What the processing of one property meets: the outcome of \<open>session.get\<close>, the outcome of
  \<open>extractor.extract_all\<close> (a dict, or the message of the exception it raised), the message
  of the exception of the print line (should it raise), the clock, and whether a shutdown
  signal arrives while the property is processed (before the end of its cooldown wait, if
  it has one). Every \<open>datetime.now\<close> of one call reads the same clock value.
\<close>

record detail_env =
  de_response :: http_outcome
  de_extracted :: "pystr + pydict"
  de_print_error :: pystr
  de_now :: timestamp
  de_signal :: bool

text \<open>\<open>fetch_property_html\<close> (with \<open>save_html\<close> off, its default).\<close>

fun fetch_property_html :: "http_outcome \<Rightarrow> pystr option" where
  "fetch_property_html RequestError = None"
| "fetch_property_html (Response status_code text) =
     (if status_code = 200 then Some text else None)"

text \<open>
  \<open>int(self.current_cooldown * COOLDOWN_MULTIPLIER)\<close> with the multiplier 1.5. The duration
  is a Python \<open>int\<close> and the multiplier a \<open>float\<close>: the duration is converted to binary64,
  the product is formed in binary64, and \<open>int\<close> cuts it to an integer towards zero. Both the
  conversion and the product round to 53 significant bits, to the nearest value and to the
  even one of two nearest.

  \<open>round_sig n\<close> is the natural number \<open>n\<close> rounded to 53 significant bits: \<open>sig_shift n\<close>
  is the number of low bits that do not fit, \<open>q\<close> the 53 bits kept and \<open>r\<close> what is cut off.
\<close>

fun sig_shift :: "nat \<Rightarrow> nat" where
  "sig_shift n = (if n < 2 ^ 53 then 0 else Suc (sig_shift (n div 2)))"

declare sig_shift.simps [simp del]

definition round_sig :: "nat \<Rightarrow> nat" where
  "round_sig n =
     (let e = sig_shift n; q = n div 2 ^ e; r = n mod 2 ^ e
      in if 2 * r < 2 ^ e then q * 2 ^ e
         else if 2 ^ e < 2 * r then (q + 1) * 2 ^ e
         else if even q then q * 2 ^ e
         else (q + 1) * 2 ^ e)"

text \<open>
  \<open>int(c * 1.5)\<close> for \<open>c\<close> from 0 on. \<open>x\<close> is \<open>float(c)\<close>; the conversion raises
  \<open>OverflowError\<close> from \<open>2 ^ 1024\<close> on, beyond the largest binary64 number. The exact
  product is \<open>3 * x / 2\<close>, and \<open>y / 2\<close> is the product rounded (rounding to significant
  bits commutes with halving); from \<open>2 ^ 1024\<close> on the product is infinite, and \<open>int\<close> of
  infinity raises \<open>OverflowError\<close>. \<open>y / 2\<close> is cut to \<open>y div 2\<close>.
\<close>

definition times_multiplier :: "nat \<Rightarrow> exn + nat" where
  "times_multiplier c =
     (let x = round_sig c in
      if 2 ^ 1024 \<le> x then Inl OverflowError
      else (let y = round_sig (3 * x) in
            if 2 ^ 1025 \<le> y then Inl OverflowError else Inr (y div 2)))"

text \<open>The same for any integer: rounding and cutting are symmetric about 0.\<close>

definition cooldown_product :: "int \<Rightarrow> exn + int" where
  "cooldown_product c =
     (case times_multiplier (nat \<bar>c\<bar>) of
        Inl e \<Rightarrow> Inl e
      | Inr d \<Rightarrow> Inr (if 0 \<le> c then int d else - int d))"

text \<open>
  The value of \<open>self.current_cooldown\<close> after the assignment
  \<open>self.current_cooldown = int(self.current_cooldown * COOLDOWN_MULTIPLIER)\<close>: when the
  right-hand side raises, nothing is assigned.
\<close>

definition next_cooldown :: "int \<Rightarrow> int" where
  "next_cooldown c = (case cooldown_product c of Inl e \<Rightarrow> c | Inr d \<Rightarrow> d)"

text \<open>
  \<open>_handle_cooldown\<close>. \<open>signal\<close>: a shutdown signal arrives before the wait has ended.
  The branches are those of a call in which the product of the assignment exists
  (\<open>cooldown_product\<close> gives \<open>Inr\<close>, as it does for every duration below \<open>2 ^ 1023\<close>
  seconds). Beyond that Python raises \<open>OverflowError\<close> out of \<open>_handle_cooldown\<close>, before
  the reset of the counter; this is no branch of \<open>handle_cooldown\<close>, and what is proved
  of the durations is stated for a duration whose product exists.
\<close>

definition handle_cooldown :: "bool \<Rightarrow> scraper \<Rightarrow> bool \<times> scraper" where
  "handle_cooldown signal s =
     (let s1 = s\<lparr>stats_cooldowns := stats_cooldowns s + 1,
                 cooldown_count := cooldown_count s + 1,
                 SHUTDOWN_REQUESTED := SHUTDOWN_REQUESTED s \<or> signal\<rparr>
      in if SHUTDOWN_REQUESTED s1 then (False, s1)
         else (True, s1\<lparr>cooldown_waits := cooldown_waits s1 @ [current_cooldown s1],
                         current_cooldown := next_cooldown (current_cooldown s1),
                         consecutive_challenges := 0,
                         last_challenge_time := None\<rparr>))"

text \<open>The three \<open>update_one(..., {'$set': ...}, upsert=True)\<close> calls on \<open>property_details\<close>.\<close>

definition set_failure ::
  "pystr \<Rightarrow> pyval \<Rightarrow> timestamp \<Rightarrow> pystr \<Rightarrow> (pystr \<rightharpoonup> detail_record) \<Rightarrow> (pystr \<rightharpoonup> detail_record)" where
  "set_failure pid url now msg coll =
     coll(pid \<mapsto>
       (case coll pid of
          None \<Rightarrow> \<lparr>dr_url = url, dr_scraped_at = now, dr_extraction_success = False,
                    dr_bot_challenge = None, dr_extracted_data = None, dr_error = Some msg\<rparr>
        | Some r \<Rightarrow> r\<lparr>dr_url := url, dr_scraped_at := now, dr_extraction_success := False,
                       dr_error := Some msg\<rparr>))"

definition set_challenge ::
  "pystr \<Rightarrow> pyval \<Rightarrow> timestamp \<Rightarrow> pydict \<Rightarrow> (pystr \<rightharpoonup> detail_record) \<Rightarrow> (pystr \<rightharpoonup> detail_record)" where
  "set_challenge pid url now extracted_data coll =
     coll(pid \<mapsto>
       (case coll pid of
          None \<Rightarrow> \<lparr>dr_url = url, dr_scraped_at = now, dr_extraction_success = False,
                    dr_bot_challenge = Some True, dr_extracted_data = Some extracted_data,
                    dr_error = None\<rparr>
        | Some r \<Rightarrow> r\<lparr>dr_url := url, dr_scraped_at := now, dr_extraction_success := False,
                       dr_bot_challenge := Some True,
                       dr_extracted_data := Some extracted_data\<rparr>))"

definition set_success ::
  "pystr \<Rightarrow> pyval \<Rightarrow> timestamp \<Rightarrow> pydict \<Rightarrow> (pystr \<rightharpoonup> detail_record) \<Rightarrow> (pystr \<rightharpoonup> detail_record)" where
  "set_success pid url now extracted_data coll =
     coll(pid \<mapsto>
       (case coll pid of
          None \<Rightarrow> \<lparr>dr_url = url, dr_scraped_at = now, dr_extraction_success = True,
                    dr_bot_challenge = None, dr_extracted_data = Some extracted_data,
                    dr_error = None\<rparr>
        | Some r \<Rightarrow> r\<lparr>dr_url := url, dr_scraped_at := now, dr_extraction_success := True,
                       dr_extracted_data := Some extracted_data\<rparr>))"

text \<open>
  \<open>properties_coll.update_one({'property_id': pid}, {'$set': {'detail_scraped': True,
  'detail_scraped_at': now}})\<close>, without upsert: the first match, if any.
\<close>

fun mark_detail_scraped :: "pystr \<Rightarrow> timestamp \<Rightarrow> item_doc list \<Rightarrow> item_doc list" where
  "mark_detail_scraped pid now [] = []"
| "mark_detail_scraped pid now (x # xs) =
     (if property_id x = pid
      then x\<lparr>detail_scraped := True, detail_scraped_at := Some now\<rparr> # xs
      else x # mark_detail_scraped pid now xs)"

text \<open>
  The line that prints the result formats the price with \<open>{price:,.0f}\<close> when it is truthy,
  inside the \<open>try\<close>: a price that is no number raises, as does a \<open>pricing_details\<close> that is
  no dict.
\<close>

definition printed_price :: "pydict \<Rightarrow> exn + pyval" where
  "printed_price extracted_data =
     (let price = dict_get extracted_data (str ''price'') in
      if truthy price then Inr price
      else (case map_of extracted_data (str ''pricing_details'') of
              None \<Rightarrow> Inr PNone
            | Some (PDict pricing) \<Rightarrow> Inr (dict_get pricing (str ''price''))
            | Some v \<Rightarrow> Inl AttributeError))"

definition print_raises :: "pydict \<Rightarrow> bool" where
  "print_raises extracted_data =
     (case printed_price extracted_data of
        Inl e \<Rightarrow> True
      | Inr price \<Rightarrow>
          truthy price \<and> (case price of PNum x \<Rightarrow> False | PBool b \<Rightarrow> False | _ \<Rightarrow> True))"

text \<open>The \<open>except Exception\<close> branch of \<open>process_property\<close>.\<close>

definition extraction_error ::
  "pystr \<Rightarrow> pyval \<Rightarrow> timestamp \<Rightarrow> pystr \<Rightarrow> scraper \<Rightarrow> bool \<times> scraper" where
  "extraction_error pid url now msg s =
     (False,
      s\<lparr>stats_failed := stats_failed s + 1,
        stats_error_list := stats_error_list s @ [(pid, msg)],
        details_coll := set_failure pid url now msg (details_coll s)\<rparr>)"

text \<open>\<open>BayutDetailScraper.process_property\<close>.\<close>

definition process_property ::
  "(codepoint \<Rightarrow> pystr) \<Rightarrow> detail_env \<Rightarrow> item_doc \<Rightarrow> scraper \<Rightarrow> bool \<times> scraper" where
  "process_property tbl env property_doc s =
     (let pid = property_id property_doc; url = detailed_url property_doc in
      if \<not> truthy url then (False, s)
      else if (case details_coll s pid of None \<Rightarrow> False | Some r \<Rightarrow> dr_extraction_success r)
      then (True, s\<lparr>stats_skipped := stats_skipped s + 1\<rparr>)
      else
        (let s1 = s\<lparr>requests_sent := requests_sent s @ [url]\<rparr>;
             html = (case fetch_property_html (de_response env) of None \<Rightarrow> [] | Some h \<Rightarrow> h)
         in
         if html = [] then
           (False,
            s1\<lparr>stats_failed := stats_failed s1 + 1,
               details_coll :=
                 set_failure pid url (de_now env) (str ''Failed to fetch HTML'')
                   (details_coll s1)\<rparr>)
         else
           (case de_extracted env of
              Inl msg \<Rightarrow> extraction_error pid url (de_now env) msg s1
            | Inr extracted_data \<Rightarrow>
                if detect_bot_challenge tbl html extracted_data then
                  (let s2 = s1\<lparr>consecutive_challenges := consecutive_challenges s1 + 1,
                               stats_bot_challenges := stats_bot_challenges s1 + 1,
                               last_challenge_time := Some (de_now env),
                               details_coll :=
                                 set_challenge pid url (de_now env) extracted_data
                                   (details_coll s1)\<rparr>
                   in if consecutive_challenges s2 \<ge> BOT_DETECTION_THRESHOLD
                      then (False, snd (handle_cooldown (de_signal env) s2))
                      else (False, s2))
                else
                  (let s2 = s1\<lparr>consecutive_challenges := 0,
                               last_challenge_time := None,
                               details_coll :=
                                 set_success pid url (de_now env) extracted_data
                                   (details_coll s1),
                               properties_coll :=
                                 mark_detail_scraped pid (de_now env) (properties_coll s1),
                               stats_success := stats_success s1 + 1\<rparr>
                   in if print_raises extracted_data
                      then extraction_error pid url (de_now env) (de_print_error env) s2
                      else (True, s2)))))"

text \<open>
  The query of \<open>run\<close>: \<open>detail_scraped\<close> is not \<open>True\<close> and \<open>detailed_url\<close> is not \<open>None\<close>;
  then \<open>skip\<close> and, when \<open>limit\<close> is given and not 0, \<open>limit\<close>.
\<close>

definition pending :: "item_doc \<Rightarrow> bool" where
  "pending x \<longleftrightarrow> \<not> detail_scraped x \<and> detailed_url x \<noteq> PNone"

definition cursor :: "nat option \<Rightarrow> nat \<Rightarrow> item_doc list \<Rightarrow> item_doc list" where
  "cursor limit skip coll =
     (let found = drop skip (filter pending coll) in
      case limit of None \<Rightarrow> found | Some n \<Rightarrow> if n = 0 then found else take n found)"

text \<open>
  The loop of \<open>run\<close> over the documents of the cursor, each with what its processing meets.
\<close>

fun run_loop ::
  "(codepoint \<Rightarrow> pystr) \<Rightarrow> (detail_env \<times> item_doc) list \<Rightarrow> scraper \<Rightarrow> scraper" where
  "run_loop tbl [] s = s"
| "run_loop tbl ((env, property_doc) # rest) s =
     (if SHUTDOWN_REQUESTED s then s
      else
        (let s' = snd (process_property tbl env property_doc
                         (s\<lparr>stats_processed := stats_processed s + 1\<rparr>))
         in run_loop tbl rest
              (s'\<lparr>SHUTDOWN_REQUESTED := SHUTDOWN_REQUESTED s' \<or> de_signal env\<rparr>)))"

definition initial_scraper :: "(pystr \<rightharpoonup> detail_record) \<Rightarrow> item_doc list \<Rightarrow> scraper" where
  "initial_scraper details props =
     \<lparr>details_coll = details, properties_coll = props, stats_processed = 0,
      stats_success = 0, stats_failed = 0, stats_skipped = 0, stats_bot_challenges = 0,
      stats_cooldowns = 0, stats_error_list = [], consecutive_challenges = 0,
      current_cooldown = INITIAL_COOLDOWN, cooldown_count = 0, last_challenge_time = None,
      requests_sent = [], cooldown_waits = [], SHUTDOWN_REQUESTED = False\<rparr>"

text \<open>
  The duration of the cooldown that follows \<open>n\<close> cooldowns that ran to their end, from the
  initial one on; \<open>Inl\<close> when the assignment of an earlier expiry has raised.
\<close>

fun cooldown_after :: "nat \<Rightarrow> exn + int" where
  "cooldown_after 0 = Inr INITIAL_COOLDOWN"
| "cooldown_after (Suc n) =
     (case cooldown_after n of Inl e \<Rightarrow> Inl e | Inr c \<Rightarrow> cooldown_product c)"

subsection \<open>The cooldown of the asynchronous scraper\<close>

text \<open>
  The attributes \<open>BayutAsyncDetailScraper._handle_cooldown\<close> reads and writes, the global
  \<open>IN_COOLDOWN\<close>, and the durations \<open>asyncio.sleep\<close> was called with.
\<close>

record async_scraper =
  as_stats_cooldowns :: nat
  as_cooldown_count :: nat
  as_current_cooldown :: int
  as_consecutive_challenges :: nat
  as_last_challenge_time :: "timestamp option"
  IN_COOLDOWN :: bool
  as_sleeps :: "int list"

text \<open>
  \<open>_handle_cooldown\<close> is a coroutine. The event loop runs it without interruption up to
  \<open>await asyncio.sleep(self.current_cooldown)\<close>; there it is suspended, and the other
  coroutines of the batch (\<open>asyncio.gather\<close> in \<open>process_batch\<close>) run, among them other calls
  of \<open>_handle_cooldown\<close>: nothing in \<open>process_property\<close> tests \<open>IN_COOLDOWN\<close>. When the sleep
  is over the rest runs without interruption. \<open>async_cooldown_enter\<close> is the part before
  the suspension, \<open>async_cooldown_resume\<close> the part after it.
\<close>

definition async_cooldown_enter :: "async_scraper \<Rightarrow> async_scraper" where
  "async_cooldown_enter s =
     s\<lparr>IN_COOLDOWN := True,
       as_stats_cooldowns := as_stats_cooldowns s + 1,
       as_cooldown_count := as_cooldown_count s + 1,
       as_sleeps := as_sleeps s @ [as_current_cooldown s]\<rparr>"

definition async_cooldown_resume :: "async_scraper \<Rightarrow> async_scraper" where
  "async_cooldown_resume s =
     s\<lparr>as_current_cooldown := next_cooldown (as_current_cooldown s),
       as_consecutive_challenges := 0,
       as_last_challenge_time := None,
       IN_COOLDOWN := False\<rparr>"

text \<open>The attributes as \<open>__init__\<close> sets them.\<close>

definition initial_async_scraper :: async_scraper where
  "initial_async_scraper =
     \<lparr>as_stats_cooldowns = 0, as_cooldown_count = 0, as_current_cooldown = INITIAL_COOLDOWN,
      as_consecutive_challenges = 0, as_last_challenge_time = None, IN_COOLDOWN = False,
      as_sleeps = []\<rparr>"

section \<open>Notions the properties are stated with\<close>

text \<open>The fields an upsert writes on insertion only.\<close>

definition first_fields :: "item_doc \<Rightarrow> timestamp \<times> int \<times> pystr \<times> timestamp" where
  "first_fields x = (first_seen x, first_page x, first_location x, created_at x)"

text \<open>The appearances the collection holds for an identifier (none when it is unknown).\<close>

definition old_appearances :: "item_doc list \<Rightarrow> pystr \<Rightarrow> appearance list" where
  "old_appearances coll pid = (case find_one coll pid of None \<Rightarrow> [] | Some x \<Rightarrow> appearances x)"

definition sample_doc :: harvest_doc where
  "sample_doc =
     \<lparr>upsert_key = str ''7654321'', hd_property_id = str ''7654321'', hd_position = PNum 1,
      hd_detailed_url = PStr (str ''https://www.bayut.com/property/details-7654321.html''),
      hd_page_number = 1, hd_fetched_at = 10, hd_raw_item = PDict [], hd_price = PNum 950000,
      hd_purpose = str ''for-sale'', hd_location = Some (str ''dubai''), hd_city = None,
      hd_sublocation = None\<rparr>"

text \<open>
  A natural identifier is a non-empty run of digits; a synthetic one starts with \<open>hash_\<close>.
\<close>

definition natural_id :: "pylib \<Rightarrow> pystr \<Rightarrow> bool" where
  "natural_id lib pid \<longleftrightarrow> pid \<noteq> [] \<and> list_all (is_digit lib) pid"

definition synthetic_id :: "pystr \<Rightarrow> bool" where
  "synthetic_id pid \<longleftrightarrow> prefix (str ''hash_'') pid"

text \<open>
  A stand-in for the library, to evaluate the resolver at concrete items: no digits beyond
  ASCII, one serialization and one digest for every input. What is evaluated with it does
  not depend on these choices.
\<close>

definition toy_lib :: pylib where
  "toy_lib =
     \<lparr>unicode_decimal = (\<lambda>c. False), json_dumps = (\<lambda>v. str ''null''),
      md5_hexdigest = (\<lambda>bytes. replicate 32 48)\<rparr>"

definition sample_url :: pystr where
  "sample_url = str ''https://www.bayut.com/property/details-7654321.html''"

text \<open>An entry whose URL is 256 times the letter e with acute accent (U+00E9).\<close>

definition accented_url :: pystr where
  "accented_url = replicate 256 233"

definition accented_main :: pyval where
  "accented_main = PDict [(str ''url'', PStr accented_url)]"

definition accented_item :: pyval where
  "accented_item = PDict [(str ''position'', PNum 1), (str ''mainEntity'', accented_main)]"

definition sample_item :: pyval where
  "sample_item =
     PDict [(str ''position'', PNum 3),
            (str ''mainEntity'',
             PDict [(str ''url'', PStr sample_url),
                    (str ''offers'',
                     PList [PDict [(str ''priceSpecification'',
                                    PDict [(str ''price'', PNum 950000)])]])])]"

text \<open>The collection holds a successful detail record for the identifier.\<close>

definition has_success :: "scraper \<Rightarrow> pystr \<Rightarrow> bool" where
  "has_success s pid \<longleftrightarrow>
     (case details_coll s pid of None \<Rightarrow> False | Some r \<Rightarrow> dr_extraction_success r)"

text \<open>
  What a call can meet. A transport failure: no response, or a status outside 200 to 299.
  A challenge: the page arrives, the extraction returns and the detector says challenge,
  and no shutdown signal arrives. A normal page: the detector says normal.
\<close>

definition transport_failure :: "detail_env \<Rightarrow> bool" where
  "transport_failure env \<longleftrightarrow>
     (case de_response env of
        RequestError \<Rightarrow> True | Response c html \<Rightarrow> c < 200 \<or> 299 < c)"





text \<open>Sample data: a listing, and calls that meet a challenge page or no response.\<close>

definition listing :: "string \<Rightarrow> item_doc" where
  "listing pid =
     \<lparr>property_id = str pid,
      detailed_url = PStr (str ''https://www.bayut.com/property/details-'' @ str pid @ str ''.html''),
      last_raw_item = PNone, last_seen = 1, last_page = 1, last_position = PNum 1,
      last_location = str ''dubai'', current_price = PNum 950000, purpose = str ''for-sale'',
      locations_seen = [str ''dubai''], appearances = [], first_seen = 1, first_page = 1,
      first_location = str ''dubai'', created_at = 1, detail_scraped = False,
      detail_scraped_at = None\<rparr>"

definition challenge_call :: detail_env where
  "challenge_call =
     \<lparr>de_response = Response 200 (str ''<html>Access Denied</html>''),
      de_extracted = Inr [], de_print_error = [], de_now = 5, de_signal = False\<rparr>"

definition failed_call :: detail_env where
  "failed_call =
     \<lparr>de_response = Response 503 [], de_extracted = Inr [], de_print_error = [],
      de_now = 5, de_signal = False\<rparr>"

definition scraped_record :: detail_record where
  "scraped_record =
     \<lparr>dr_url = PStr (str ''https://www.bayut.com/property/details-101.html''),
      dr_scraped_at = 3, dr_extraction_success = True, dr_bot_challenge = None,
      dr_extracted_data = Some full_data, dr_error = None\<rparr>"

definition resumed_scraper :: scraper where
  "resumed_scraper = initial_scraper [str ''101'' \<mapsto> scraped_record] [listing ''101'']"


text \<open>A page the CSV-mode loop counts as empty: it yields no document.\<close>

definition empty_page :: "pylib \<Rightarrow> location_info \<Rightarrow> nat \<Rightarrow> page_env \<Rightarrow> bool" where
  "empty_page lib li page_num env \<longleftrightarrow>
     (case page_items lib li page_num env of None \<Rightarrow> True | Some items \<Rightarrow> items = [])"

text \<open>
  How the incremental scraper meets an entry of a page: it cannot be read, or its
  identifier is in the collection, or it is new.
\<close>

datatype elt_kind = Unreadable | Known | New

definition elt_kind :: "pylib \<Rightarrow> item_doc list \<Rightarrow> pyval \<Rightarrow> elt_kind" where
  "elt_kind lib coll el =
     (case item_id lib el of
        Inl e \<Rightarrow> Unreadable
      | Inr pid \<Rightarrow> if property_exists coll pid then Known else New)"

text \<open>The entries \<open>process_page\<close> gets to iterate: none when the page fails before.\<close>

definition page_elts :: "page_env \<Rightarrow> pyval list" where
  "page_elts env =
     (case pe_response env of
        RequestError \<Rightarrow> []
      | Response c html \<Rightarrow>
          if c \<noteq> 200 \<or> length html < 1000 then []
          else (case pe_ldjson env of
                  Inl e \<Rightarrow> []
                | Inr (PDict d) \<Rightarrow>
                    (case iter_elts (item_list_element d) of Inl e \<Rightarrow> [] | Inr elts \<Rightarrow> elts)
                | Inr v \<Rightarrow> []))"

text \<open>The readable entries of a page, in page order, as known or new.\<close>

definition readable_kinds :: "pylib \<Rightarrow> item_doc list \<Rightarrow> page_env \<Rightarrow> elt_kind list" where
  "readable_kinds lib coll env =
     filter (\<lambda>k. k \<noteq> Unreadable) (map (elt_kind lib coll) (page_elts env))"

text \<open>The counter of the entry loop as a function of the kinds of the entries.\<close>

fun scan :: "nat \<Rightarrow> elt_kind list \<Rightarrow> nat" where
  "scan c [] = c"
| "scan c (Unreadable # ks) = scan c ks"
| "scan c (Known # ks) =
     (if c + 1 \<ge> CONSECUTIVE_EXISTING_LIMIT then c + 1 else scan (c + 1) ks)"
| "scan c (New # ks) = scan 0 ks"

text \<open>Sample pages: entries with a detail URL, a listing page, a page that is not found.\<close>

definition entry :: "string \<Rightarrow> pyval" where
  "entry pid =
     PDict [(str ''position'', PNum 1),
            (str ''mainEntity'',
             PDict [(str ''url'', PStr (str ''details-'' @ str pid @ str ''.html''))])]"

text \<open>The document the incremental scraper builds from such an entry.\<close>

definition entry_doc :: "string \<Rightarrow> nat \<Rightarrow> timestamp \<Rightarrow> harvest_doc" where
  "entry_doc pid page_num now =
     \<lparr>upsert_key = str pid, hd_property_id = str pid, hd_position = PNum 1,
      hd_detailed_url = PStr (str ''details-'' @ str pid @ str ''.html''),
      hd_page_number = int page_num, hd_fetched_at = now, hd_raw_item = entry pid,
      hd_price = PNone, hd_purpose = str ''for-sale'', hd_location = Some (str ''UAE''),
      hd_city = None, hd_sublocation = None\<rparr>"

definition listing_page :: "string list \<Rightarrow> page_env" where
  "listing_page pids =
     \<lparr>pe_response = Response 200 (replicate 1000 32),
      pe_ldjson = Inr (PDict [(str ''itemListElement'', PList (map entry pids))]),
      pe_now = 7, pe_signal = False\<rparr>"

definition not_found :: page_env where
  "not_found =
     \<lparr>pe_response = Response 404 [], pe_ldjson = Inl (RuntimeError []), pe_now = 7,
      pe_signal = False\<rparr>"

definition known_store :: "item_doc list" where
  "known_store = map listing [''101'', ''102'', ''103'']"

text \<open>
  The page stream of the specification's test: three new items, then two known ones, then one known one.
\<close>

definition delta_stream :: "nat \<Rightarrow> page_env" where
  "delta_stream page_num =
     (if page_num = 1 then listing_page [''201'', ''202'', ''203'']
      else if page_num = 2 then listing_page [''101'', ''102'']
      else if page_num = 3 then listing_page [''103'']
      else not_found)"

text \<open>A stream with a known item at the end of page 1 and another at the start of page 2.\<close>

definition boundary_stream :: "nat \<Rightarrow> page_env" where
  "boundary_stream page_num =
     (if page_num = 1 then listing_page [''301'', ''101'']
      else if page_num = 2 then listing_page [''102'', ''302'']
      else not_found)"

definition dead_stream :: "nat \<Rightarrow> page_env" where
  "dead_stream page_num = not_found"

definition marina :: location_info where
  "marina =
     \<lparr>li_city = str ''Dubai'', li_sublocation = str ''Dubai Marina'',
      li_url = str ''https://www.bayut.com/for-sale/property/dubai/dubai-marina/'',
      li_listings = str ''1,200''\<rparr>"

text \<open>
  A sub-location whose fourth page lists two items and whose other pages are not found; and
  a page that lists an item in a body that holds the word captcha.
\<close>

definition marina_stream :: "nat \<Rightarrow> page_env" where
  "marina_stream page_num = (if page_num = 4 then listing_page [''201'', ''202''] else not_found)"

definition captcha_page :: page_env where
  "captcha_page =
     \<lparr>pe_response = Response 200 (str ''captcha'' @ replicate 1000 32),
      pe_ldjson = Inr (PDict [(str ''itemListElement'', PList [entry ''201''])]),
      pe_now = 7, pe_signal = False\<rparr>"

definition fresh_csv_state :: csv_state where
  "fresh_csv_state =
     \<lparr>cs_coll = [], consecutive_empty_pages = 0, location_items = 0, cs_requests = []\<rparr>"

definition fresh_run_state :: run_state where
  "fresh_run_state =
     \<lparr>rs_coll = [], rs_consecutive_empty_pages = 0, rs_location_items = 0, rs_requests = []\<rparr>"

section \<open>Properties of the detector\<close>

lemma py_in_sublist: "py_in sub s \<longleftrightarrow> sublist sub s"
  by (induction s) (auto simp: sublist_Cons_right)

lemma scan_indicators_iff:
  "scan_indicators inds h \<longleftrightarrow> (\<exists>ind \<in> set inds. sublist ind h)"
  by (induction inds) (auto simp: py_in_sublist)

lemma truthy_empty_value: "\<not> truthy v \<longleftrightarrow> empty_value v"
  by (cases v) (auto simp: empty_value_def)

lemma missing_fields_eq:
  "missing_fields d = length (filter (absent_or_empty d) essential_fields)"
  unfolding missing_fields_def absent_or_empty_def dict_get_def
  by (rule arg_cong [where f = length], rule filter_cong)
     (auto simp: truthy_empty_value empty_value_def split: option.splits)


lemma py_lower_append: "py_lower tbl (a @ b) = py_lower tbl a @ py_lower tbl b"
  by (simp add: py_lower_def)

lemma sublist_py_lower:
  assumes "sublist seg html"
  shows "sublist (py_lower tbl seg) (py_lower tbl html)"
proof -
  from assms obtain ps ss where "html = ps @ seg @ ss"
    by (auto simp: sublist_def)
  then have "py_lower tbl html = py_lower tbl ps @ py_lower tbl seg @ py_lower tbl ss"
    by (simp add: py_lower_append)
  then show ?thesis
    unfolding sublist_def by blast
qed

text \<open>
  C4, as the code has it. The detector answers \<open>True\<close> (a challenge) exactly when at least
  three of the four essential fields are missing from the extracted data or hold an empty
  value (\<open>None\<close>, \<open>False\<close>, zero, an empty string, list or dict), or the lower-cased body
  contains one of the nine indicators. Each condition suffices alone: three such fields
  whatever the body is, and any stretch of the body that lower-cases to an indicator
  whatever the fields are. Otherwise the answer is \<open>False\<close>.
\<close>

theorem detect_bot_challenge_iff:
  "(detect_bot_challenge tbl html d \<longleftrightarrow>
      3 \<le> length (filter (absent_or_empty d) essential_fields)
      \<or> contains_indicator (py_lower tbl html))
   \<and> (3 \<le> length (filter (absent_or_empty d) essential_fields)
        \<longrightarrow> detect_bot_challenge tbl html d)
   \<and> (\<forall>seg. sublist seg html \<and> py_lower tbl seg \<in> set bot_indicators
        \<longrightarrow> detect_bot_challenge tbl html d)"
proof -
  have main: "detect_bot_challenge tbl html d \<longleftrightarrow>
      3 \<le> length (filter (absent_or_empty d) essential_fields)
      \<or> contains_indicator (py_lower tbl html)"
    by (simp add: detect_bot_challenge_def scan_indicators_iff contains_indicator_def
        missing_fields_eq)
  have "detect_bot_challenge tbl html d"
    if "sublist seg html" "py_lower tbl seg \<in> set bot_indicators" for seg
    using that sublist_py_lower [of seg html tbl] main
    by (auto simp: contains_indicator_def)
  with main show ?thesis by blast
qed

text \<open>
  C4 at a page whose body reads \<open>Access Denied\<close> while all four fields are extracted: the
  indicator alone makes it a challenge.
\<close>

lemma lower_access_denied:
  "py_lower identity_table (str ''Access Denied'') = str ''access denied''"
  by (simp add: py_lower_def lower_cp_def str_def)

theorem detect_bot_challenge_witness:
  "length (filter (absent_or_empty full_data) essential_fields) = 0
   \<and> sublist (str ''Access Denied'') (str ''<h1>Access Denied</h1>'')
   \<and> py_lower identity_table (str ''Access Denied'') \<in> set bot_indicators
   \<and> detect_bot_challenge identity_table (str ''<h1>Access Denied</h1>'') full_data"
proof -
  have a: "length (filter (absent_or_empty full_data) essential_fields) = 0"
    by (simp add: absent_or_empty_def full_data_def essential_fields_def str_def
        empty_value_def)
  have "str ''<h1>Access Denied</h1>'' = str ''<h1>'' @ str ''Access Denied'' @ str ''</h1>''"
    by (simp add: str_def)
  then have b: "sublist (str ''Access Denied'') (str ''<h1>Access Denied</h1>'')"
    unfolding sublist_def by blast
  have c: "py_lower identity_table (str ''Access Denied'') \<in> set bot_indicators"
    unfolding lower_access_denied by (simp add: bot_indicators_def)
  from detect_bot_challenge_iff [of identity_table "str ''<h1>Access Denied</h1>''" full_data]
    a b c
  show ?thesis by blast
qed

text \<open>
  C4 as the specification words it, with "absent" read as "the key is not in the extracted
  fields", fails: the extraction of a studio offered without a price holds all four keys,
  three of them with an empty value (price 0, bedrooms 0, an empty locality), and its page
  has no indicator, yet the detector reports a challenge.
\<close>

theorem detect_absent_counterexample:
  "detect_bot_challenge identity_table [] studio_data
   \<and> absent_fields studio_data = 0
   \<and> \<not> contains_indicator (py_lower identity_table [])"
proof -
  have "detect_bot_challenge identity_table [] studio_data"
    by (simp add: detect_bot_challenge_def missing_fields_def essential_fields_def
        studio_data_def dict_get_def str_def)
  moreover have "absent_fields studio_data = 0"
    by (simp add: absent_fields_def essential_fields_def studio_data_def str_def)
  moreover have "\<not> contains_indicator (py_lower identity_table [])"
    by (simp add: contains_indicator_def py_lower_def bot_indicators_def str_def)
  ultimately show ?thesis by blast
qed

section \<open>Properties of the dedup store\<close>

lemma length_slice_last: "length (slice_last n xs) \<le> n"
  by (simp add: slice_last_def)

lemma slice_last_snoc: "slice_last n (slice_last n xs @ [a]) = slice_last n (xs @ [a])"
  by (cases "n \<le> length xs") (simp_all add: slice_last_def Suc_diff_le add.commute)

lemma slice_last_append:
  "slice_last n (slice_last n xs @ ys) = slice_last n (xs @ ys)"
  by (cases "n \<le> length xs") (simp_all add: slice_last_def Suc_diff_le add.commute)

lemma slice_last_idem: "slice_last n (slice_last n xs) = slice_last n xs"
  by (simp add: slice_last_def)

lemma distinct_add_to_set: "distinct xs \<Longrightarrow> distinct (add_to_set x xs)"
  by (simp add: add_to_set_def)

lemma item_ok_update_matched: "item_ok x \<Longrightarrow> item_ok (update_matched r d x)"
  by (simp add: item_ok_def update_matched_def length_slice_last distinct_add_to_set)

lemma item_ok_inserted: "item_ok (inserted_doc d)"
  by (simp add: item_ok_def inserted_doc_def slice_last_def)

lemma ids_update_one:
  "keyed d \<Longrightarrow> map property_id (update_one r d coll) =
     (if upsert_key d \<in> set (map property_id coll) then map property_id coll
      else map property_id coll @ [upsert_key d])"
  by (induction coll) (auto simp: keyed_def update_matched_def inserted_doc_def)

lemma all_ok_update_one:
  "list_all item_ok coll \<Longrightarrow> list_all item_ok (update_one r d coll)"
  by (induction coll) (auto simp: item_ok_update_matched item_ok_inserted)

lemma coll_ok_update_one: "keyed d \<Longrightarrow> coll_ok coll \<Longrightarrow> coll_ok (update_one r d coll)"
  by (simp add: coll_ok_def ids_update_one all_ok_update_one)

lemma coll_ok_fold:
  "list_all keyed docs \<Longrightarrow> coll_ok coll \<Longrightarrow> coll_ok (fold (update_one r) docs coll)"
  by (induction docs arbitrary: coll) (auto simp: coll_ok_update_one)


lemma find_one_update_one_other:
  "keyed d \<Longrightarrow> upsert_key d \<noteq> pid \<Longrightarrow> find_one (update_one r d coll) pid = find_one coll pid"
  by (induction coll) (auto simp: find_one_def keyed_def update_matched_def inserted_doc_def)

lemma find_one_update_one_same:
  "keyed d \<Longrightarrow> find_one (update_one r d coll) (upsert_key d) =
     Some (case find_one coll (upsert_key d) of
             None \<Rightarrow> inserted_doc d | Some x \<Rightarrow> update_matched r d x)"
  by (induction coll) (auto simp: find_one_def keyed_def update_matched_def inserted_doc_def)


lemma first_fields_update_matched: "first_fields (update_matched r d x) = first_fields x"
  by (simp add: first_fields_def update_matched_def)

lemma appearances_update_matched:
  "appearances (update_matched r d x) = slice_last 100 (appearances x @ [appearance_of d])"
  by (simp add: update_matched_def)

lemma appearances_inserted:
  "appearances (inserted_doc d) = slice_last 100 [appearance_of d]"
  by (simp add: inserted_doc_def)

lemma first_fields_update_one:
  assumes "keyed d" "find_one coll pid = Some x"
  shows "map_option first_fields (find_one (update_one r d coll) pid) = Some (first_fields x)"
proof (cases "upsert_key d = pid")
  case True
  with assms show ?thesis
    using find_one_update_one_same [of d r coll]
    by (simp add: first_fields_update_matched)
next
  case False
  with assms show ?thesis
    by (simp add: find_one_update_one_other)
qed

lemma first_fields_fold:
  "list_all keyed docs \<Longrightarrow> find_one coll pid = Some x \<Longrightarrow>
   map_option first_fields (find_one (fold (update_one r) docs coll) pid) = Some (first_fields x)"
proof (induction docs arbitrary: coll x)
  case Nil
  then show ?case by simp
next
  case (Cons d docs)
  from Cons.prems have k: "keyed d" and ks: "list_all keyed docs" by simp_all
  from first_fields_update_one [OF k Cons.prems(2), where r = r]
  obtain y where y: "find_one (update_one r d coll) pid = Some y"
    and fy: "first_fields y = first_fields x"
    by (cases "find_one (update_one r d coll) pid") auto
  from Cons.IH [OF ks y] fy show ?case by simp
qed

lemma old_appearances_update_one:
  "keyed d \<Longrightarrow> old_appearances (update_one r d coll) pid =
     (if upsert_key d = pid then slice_last 100 (old_appearances coll pid @ [appearance_of d])
      else old_appearances coll pid)"
  by (auto simp: old_appearances_def find_one_update_one_same find_one_update_one_other
      appearances_update_matched appearances_inserted split: option.splits)

lemma exists_update_one:
  "keyed d \<Longrightarrow> property_exists (update_one r d coll) pid \<longleftrightarrow>
     upsert_key d = pid \<or> property_exists coll pid"
proof (cases "upsert_key d = pid")
  case True
  assume "keyed d"
  from find_one_update_one_same [OF this, of r coll] True show ?thesis
    by (auto simp: property_exists_def)
next
  case False
  assume "keyed d"
  with False show ?thesis
    by (simp add: property_exists_def find_one_update_one_other)
qed

lemma exists_fold:
  "list_all keyed docs \<Longrightarrow> property_exists (fold (update_one r) docs coll) pid \<longleftrightarrow>
     pid \<in> upsert_key ` set docs \<or> property_exists coll pid"
  by (induction docs arbitrary: coll) (auto simp: exists_update_one)

lemma old_appearances_fold:
  "list_all keyed docs \<Longrightarrow> observations pid docs \<noteq> [] \<Longrightarrow>
   old_appearances (fold (update_one r) docs coll) pid =
     slice_last 100 (old_appearances coll pid @ observations pid docs)"
proof (induction docs arbitrary: coll)
  case Nil
  then show ?case by (simp add: observations_def)
next
  case (Cons d docs)
  from Cons.prems have k: "keyed d" and ks: "list_all keyed docs" by simp_all
  show ?case
  proof (cases "observations pid docs = []")
    case True
    with Cons.prems(2) have same: "upsert_key d = pid"
      by (auto simp: observations_def split: if_splits)
    from True have "\<forall>e \<in> set docs. upsert_key e \<noteq> pid"
      by (auto simp: observations_def filter_empty_conv)
    then have "old_appearances (fold (update_one r) docs c) pid = old_appearances c pid" for c
      using ks
    proof (induction docs arbitrary: c)
      case Nil
      then show ?case by simp
    next
      case (Cons e es)
      then show ?case by (simp add: old_appearances_update_one)
    qed
    with same True k show ?thesis
      by (simp add: old_appearances_update_one observations_def)
  next
    case False
    from Cons.IH [OF ks False, of "update_one r d coll"] k show ?thesis
      by (simp add: old_appearances_update_one observations_def slice_last_append)
  qed
qed

lemma filter_id_le_one:
  "distinct (map property_id coll) \<Longrightarrow> length (filter (\<lambda>x. property_id x = pid) coll) \<le> 1"
proof (induction coll)
  case Nil
  then show ?case by simp
next
  case (Cons a coll)
  show ?case
  proof (cases "property_id a = pid")
    case True
    from Cons.prems have "property_id a \<notin> property_id ` set coll"
      by simp
    with True have "\<forall>x \<in> set coll. property_id x \<noteq> pid"
      by blast
    then have "filter (\<lambda>x. property_id x = pid) coll = []"
      by (simp add: filter_empty_conv)
    with True show ?thesis by simp
  next
    case False
    with Cons show ?thesis by simp
  qed
qed

lemma keyed_doc_from_item:
  "doc_from_item lib item page_num fetched_at li loc purp = Inr d \<Longrightarrow> keyed d"
  by (auto simp: doc_from_item_def keyed_def split: sum.splits)

lemma keyed_extract_property:
  "extract_property_from_item lib item page_num now = Some d \<Longrightarrow> keyed d"
  by (auto simp: extract_property_from_item_def keyed_def split: sum.splits)



lemma first_fields_created:
  assumes "keyed d" "list_all keyed rest" "find_one coll (upsert_key d) = None"
  shows "map_option first_fields (find_one (fold (update_one r) (d # rest) coll) (upsert_key d))
         = Some (hd_fetched_at d, hd_page_number d, location_str d, hd_fetched_at d)"
proof -
  from assms(1,3) have "find_one (update_one r d coll) (upsert_key d) = Some (inserted_doc d)"
    by (simp add: find_one_update_one_same)
  from first_fields_fold [OF assms(2) this, of r] show ?thesis
    by (simp add: first_fields_def inserted_doc_def)
qed

text \<open>
  C7. From a collection that satisfies the invariant (no two documents with the same
  \<open>property_id\<close>; in every document at most 100 appearances and no location twice in
  \<open>locations_seen\<close>), any batch of documents built by a crawl leaves a collection that
  satisfies it, for \<open>bulk_upsert_items\<close> and for \<open>_bulk_insert_properties\<close>. No identifier
  has more than one document. The appearances of an identifier the batch observes are the
  last 100 of its earlier appearances followed by the batch's observations of it, in their
  order. The fields \<open>first_seen\<close>, \<open>first_page\<close>, \<open>first_location\<close> and \<open>created_at\<close> of a
  document that existed keep their values, and those of a document the batch creates are
  the values of the observation that created it.
\<close>

theorem upsert_keeps_item_invariant:
  assumes "coll_ok coll" and "list_all keyed docs"
  shows "coll_ok (bulk_upsert_items docs coll)
       \<and> coll_ok (bulk_insert_properties docs coll)
       \<and> length (filter (\<lambda>x. property_id x = pid) (bulk_upsert_items docs coll)) \<le> 1
       \<and> (observations pid docs \<noteq> [] \<longrightarrow>
            old_appearances (bulk_upsert_items docs coll) pid =
              slice_last 100 (old_appearances coll pid @ observations pid docs))
       \<and> (\<forall>x. find_one coll pid = Some x \<longrightarrow>
            map_option first_fields (find_one (bulk_upsert_items docs coll) pid) =
              Some (first_fields x))
       \<and> (\<forall>d rest. docs = d # rest \<and> find_one coll (upsert_key d) = None \<longrightarrow>
            map_option first_fields (find_one (bulk_upsert_items docs coll) (upsert_key d)) =
              Some (hd_fetched_at d, hd_page_number d, location_str d, hd_fetched_at d))"
proof -
  have ok1: "coll_ok (bulk_upsert_items docs coll)"
    unfolding bulk_upsert_items_def using assms by (simp add: coll_ok_fold)
  have ok2: "coll_ok (bulk_insert_properties docs coll)"
    unfolding bulk_insert_properties_def using assms by (simp add: coll_ok_fold)
  from ok1 have one: "length (filter (\<lambda>x. property_id x = pid) (bulk_upsert_items docs coll)) \<le> 1"
    using filter_id_le_one [of "bulk_upsert_items docs coll" pid] by (simp add: coll_ok_def)
  have app: "old_appearances (bulk_upsert_items docs coll) pid =
      slice_last 100 (old_appearances coll pid @ observations pid docs)"
    if "observations pid docs \<noteq> []"
    unfolding bulk_upsert_items_def using assms(2) that by (rule old_appearances_fold)
  have fst: "map_option first_fields (find_one (bulk_upsert_items docs coll) pid) =
      Some (first_fields x)" if "find_one coll pid = Some x" for x
    unfolding bulk_upsert_items_def using assms(2) that by (rule first_fields_fold)
  have new: "map_option first_fields (find_one (bulk_upsert_items docs coll) (upsert_key d)) =
      Some (hd_fetched_at d, hd_page_number d, location_str d, hd_fetched_at d)"
    if "docs = d # rest" "find_one coll (upsert_key d) = None" for d rest
  proof -
    from assms(2) that(1) have "keyed d" "list_all keyed rest" by simp_all
    from first_fields_created [OF this that(2), of False] that(1) show ?thesis
      by (simp add: bulk_upsert_items_def)
  qed
  from ok1 ok2 one app fst new show ?thesis by blast
qed

lemma observations_replicate:
  "observations (upsert_key d) (replicate n d) = replicate n (appearance_of d)"
  by (simp add: observations_def)

text \<open>
  C7 at the empty collection and 150 observations of one listing: one document, which
  holds 100 appearances and the first fields of the first observation.
\<close>

theorem upsert_invariant_witness:
  "coll_ok [] \<and> list_all keyed (replicate 150 sample_doc)
   \<and> coll_ok (bulk_upsert_items (replicate 150 sample_doc) [])
   \<and> length (filter (\<lambda>x. property_id x = str ''7654321'')
        (bulk_upsert_items (replicate 150 sample_doc) [])) \<le> 1
   \<and> old_appearances (bulk_upsert_items (replicate 150 sample_doc) []) (str ''7654321'')
       = replicate 100 (appearance_of sample_doc)
   \<and> map_option first_fields
        (find_one (bulk_upsert_items (replicate 150 sample_doc) []) (str ''7654321''))
       = Some (10, 1, str ''dubai'', 10)"
proof -
  have a: "coll_ok []"
    by (simp add: coll_ok_def)
  have b: "list_all keyed (replicate 150 sample_doc)"
    by (simp add: list_all_iff keyed_def sample_doc_def)
  have k: "upsert_key sample_doc = str ''7654321''"
    by (simp add: sample_doc_def)
  have obs: "observations (str ''7654321'') (replicate 150 sample_doc)
      = replicate 150 (appearance_of sample_doc)"
    using observations_replicate [of sample_doc 150] by (simp add: k)
  have r: "replicate 150 sample_doc = sample_doc # replicate 149 sample_doc"
    by (simp add: replicate_Suc [symmetric] del: replicate_Suc)
  have loc: "location_str sample_doc = str ''dubai''"
    by (simp add: location_str_def sample_doc_def str_def)
  have f: "hd_fetched_at sample_doc = 10" "hd_page_number sample_doc = 1"
    by (simp_all add: sample_doc_def)
  from upsert_keeps_item_invariant [OF a b, of "str ''7654321''"] obs r k loc f
  show ?thesis
    using a b
    by (simp add: old_appearances_def find_one_def slice_last_def)
qed



section \<open>Properties of the identity resolver\<close>

lemma match_here_digits:
  "match_here lib s = Some g \<Longrightarrow> g \<noteq> [] \<and> list_all (is_digit lib) g"
  by (auto simp: match_here_def Let_def list_all_iff split: if_splits dest: set_takeWhileD)

lemma re_search_digits:
  "re_search lib u = Some g \<Longrightarrow> g \<noteq> [] \<and> list_all (is_digit lib) g"
  by (induction u) (auto split: option.splits dest: match_here_digits)

lemma re_search_natural: "re_search lib u = Some g \<Longrightarrow> natural_id lib g"
  by (simp add: natural_id_def re_search_digits)

lemma not_digit_h: "\<not> is_digit lib 104"
  by (simp add: is_digit_def)

lemma natural_not_synthetic: "natural_id lib pid \<Longrightarrow> \<not> synthetic_id pid"
  by (cases pid) (auto simp: natural_id_def synthetic_id_def str_def not_digit_h)

lemma synthetic_hash_id: "synthetic_id (hash_id lib url main)"
  by (simp add: synthetic_id_def hash_id_def)

lemma length_utf8_cp: "length (utf8_cp c) \<le> 4"
  by (simp add: utf8_cp_def)

lemma length_utf8_encode: "length (utf8_encode s) \<le> 4 * length s"
proof (induction s)
  case Nil
  then show ?case by (simp add: utf8_encode_def)
next
  case (Cons c s)
  with length_utf8_cp [of c] show ?case by (simp add: utf8_encode_def)
qed

lemma length_hash_base: "length (hash_base lib url main) \<le> 256"
  by (simp add: hash_base_def)

lemma length_hash_bytes: "length (utf8_encode (hash_base lib url main)) \<le> 1024"
  using length_utf8_encode [of "hash_base lib url main"] length_hash_base [of lib url main]
  by linarith

lemma resolve_id_match:
  assumes "re_search lib u = Some g"
  shows "resolve_id lib (PStr u) main = Inr g"
proof -
  from assms have "g \<noteq> []" by (simp add: re_search_digits)
  moreover from assms have "u \<noteq> []" by auto
  ultimately show ?thesis using assms by (simp add: resolve_id_def)
qed

lemma resolve_id_no_match:
  "u \<noteq> [] \<Longrightarrow> re_search lib u = None \<Longrightarrow>
   resolve_id lib (PStr u) main =
     Inr (str ''hash_'' @ md5_hexdigest lib (utf8_encode (take 256 u)))"
  by (simp add: resolve_id_def hash_id_def hash_base_def)

lemma resolve_id_no_url:
  "resolve_id lib PNone main =
     Inr (str ''hash_'' @ md5_hexdigest lib (utf8_encode (take 256 (json_dumps lib main))))"
  by (simp add: resolve_id_def hash_id_def hash_base_def)

lemma resolve_id_cases:
  "resolve_id lib url main = Inr pid \<Longrightarrow>
   natural_id lib pid \<or> pid = hash_id lib url main"
  by (cases url)
     (auto simp: resolve_id_def re_search_natural split: if_splits option.splits)

lemma item_id_cases:
  "item_id lib item = Inr pid \<Longrightarrow> natural_id lib pid \<or> synthetic_id pid"
  by (auto simp: item_id_def item_head_def Let_def split: sum.splits
      dest!: resolve_id_cases intro: synthetic_hash_id)

lemma doc_id_item_id:
  "doc_from_item lib item p t li loc purp = Inr d \<Longrightarrow> item_id lib item = Inr (hd_property_id d)"
  by (auto simp: doc_from_item_def item_id_def split: sum.splits)

lemma prop_id_item_id:
  "extract_property_from_item lib item p t = Some d \<Longrightarrow> item_id lib item = Inr (hd_property_id d)"
  by (auto simp: extract_property_from_item_def item_id_def split: sum.splits)


lemma item_id_resolve:
  "map_of it (str ''mainEntity'') = Some (PDict m) \<Longrightarrow> main_price m = Inr pr \<Longrightarrow>
   item_id lib (PDict it) = resolve_id lib (main_url m) (PDict m)"
  by (cases "resolve_id lib (main_url m) (PDict m)")
     (simp_all add: item_id_def item_head_def dict_get_def Let_def)

text \<open>
  C9, as the code has it. The identifier is a function of the raw item alone: page, time,
  location and purpose do not enter it. It is computed from the URL of the item's main
  entity: when the pattern matches, the identifier is the matched run of digits; when the
  URL matches nowhere, or there is none, it is \<open>hash_\<close> followed by the digest of the UTF-8
  encoding of the first 256 characters of the URL, respectively of the JSON text of the main
  entity. The hashed text has at most 256 characters and its encoding at most 1024 bytes.
  Every identifier is a run of digits or starts with \<open>hash_\<close>, and none is both.
\<close>

theorem identity_resolver:
  "(doc_from_item lib item p t li loc purp = Inr d
      \<and> doc_from_item lib item p' t' li' loc' purp' = Inr d'
      \<longrightarrow> hd_property_id d = hd_property_id d')
   \<and> (extract_property_from_item lib item n t = Some d
      \<and> extract_property_from_item lib item n' t' = Some d'
      \<longrightarrow> hd_property_id d = hd_property_id d')
   \<and> (map_of it (str ''mainEntity'') = Some (PDict m) \<and> main_price m = Inr pr
      \<longrightarrow> item_id lib (PDict it) = resolve_id lib (main_url m) (PDict m))
   \<and> (re_search lib u = Some g
      \<longrightarrow> resolve_id lib (PStr u) main = Inr g \<and> natural_id lib g)
   \<and> (u \<noteq> [] \<and> re_search lib u = None
      \<longrightarrow> resolve_id lib (PStr u) main =
            Inr (str ''hash_'' @ md5_hexdigest lib (utf8_encode (take 256 u))))
   \<and> resolve_id lib PNone main =
        Inr (str ''hash_'' @ md5_hexdigest lib (utf8_encode (take 256 (json_dumps lib main))))
   \<and> length (hash_base lib url main) \<le> 256
   \<and> length (utf8_encode (hash_base lib url main)) \<le> 1024
   \<and> synthetic_id (hash_id lib url main)
   \<and> (item_id lib item = Inr pid \<longrightarrow> natural_id lib pid \<or> synthetic_id pid)
   \<and> (natural_id lib pid \<longrightarrow> \<not> synthetic_id pid)"
proof -
  have a: "hd_property_id d = hd_property_id d'"
    if "doc_from_item lib item p t li loc purp = Inr d"
       "doc_from_item lib item p' t' li' loc' purp' = Inr d'"
    using doc_id_item_id [OF that(1)] doc_id_item_id [OF that(2)] by simp
  have b: "hd_property_id d = hd_property_id d'"
    if "extract_property_from_item lib item n t = Some d"
       "extract_property_from_item lib item n' t' = Some d'"
    using prop_id_item_id [OF that(1)] prop_id_item_id [OF that(2)] by simp
  note c = item_id_resolve [of it m pr lib]
  note e = resolve_id_match [of lib u g main] re_search_natural [of lib u g]
  note f = resolve_id_no_match [of u lib main]
  note g = resolve_id_no_url [of lib main] length_hash_base [of lib url main]
    length_hash_bytes [of lib url main] synthetic_hash_id [of lib url main]
  note h = item_id_cases [of lib item pid] natural_not_synthetic [of lib pid]
  from a b c e f g h show ?thesis by blast
qed

lemma re_search_sample: "re_search toy_lib sample_url = Some (str ''7654321'')"
  by (simp add: sample_url_def str_def match_here_def is_digit_def toy_lib_def)

lemma re_search_no_d: "100 \<notin> set u \<Longrightarrow> re_search lib u = None"
  by (induction u) (auto simp: match_here_def str_def)

lemma length_utf8_accented: "length (utf8_encode (replicate n 233)) = 2 * n"
  by (induction n) (simp_all add: utf8_encode_def utf8_cp_def)


lemma sample_url_nonempty: "sample_url \<noteq> []"
  by (simp add: sample_url_def str_def)

lemma item_id_sample: "item_id toy_lib sample_item = Inr (str ''7654321'')"
proof -
  have "main_url [(str ''url'', PStr sample_url),
                    (str ''offers'',
                     PList [PDict [(str ''priceSpecification'',
                                    PDict [(str ''price'', PNum 950000)])]])] = PStr sample_url"
    by (simp add: main_url_def dict_get_def sample_url_nonempty)
  moreover have "main_price [(str ''url'', PStr sample_url),
                    (str ''offers'',
                     PList [PDict [(str ''priceSpecification'',
                                    PDict [(str ''price'', PNum 950000)])]])] = Inr (PNum 950000)"
    by (simp add: main_price_def dict_get_def str_def)
  ultimately show ?thesis
    using resolve_id_match [OF re_search_sample]
    by (simp add: item_id_def item_head_def sample_item_def dict_get_def Let_def)
       (simp add: str_def)
qed

lemma accented_no_d: "100 \<notin> set accented_url"
  by (simp add: accented_url_def)

lemma accented_nonempty: "accented_url \<noteq> []"
  by (simp add: accented_url_def)

lemma length_accented: "length accented_url = 256"
  by (simp add: accented_url_def)

text \<open>
  C9 as the specification words it, with the hashed representation "truncated to at most 256
  bytes", fails: the slice \<open>[:256]\<close> counts characters. For an entry whose URL is 256
  accented letters the fallback hashes all of them, which are 512 bytes.
\<close>

theorem hash_bytes_counterexample:
  "item_id toy_lib accented_item = Inr (hash_id toy_lib (PStr accented_url) accented_main)
   \<and> hash_base toy_lib (PStr accented_url) accented_main = accented_url
   \<and> length (utf8_encode (hash_base toy_lib (PStr accented_url) accented_main)) = 512"
proof -
  have u: "main_url [(str ''url'', PStr accented_url)] = PStr accented_url"
    by (simp add: main_url_def dict_get_def accented_nonempty)
  have p: "main_price [(str ''url'', PStr accented_url)] = Inr PNone"
    by (simp add: main_price_def str_def)
  have r: "resolve_id toy_lib (PStr accented_url) accented_main
      = Inr (hash_id toy_lib (PStr accented_url) accented_main)"
    by (simp add: resolve_id_def accented_nonempty re_search_no_d [OF accented_no_d])
  have m: "map_of [(str ''position'', PNum 1), (str ''mainEntity'', accented_main)]
      (str ''mainEntity'') = Some (PDict [(str ''url'', PStr accented_url)])"
    by (simp add: str_def accented_main_def)
  have a: "item_id toy_lib accented_item = Inr (hash_id toy_lib (PStr accented_url) accented_main)"
    using item_id_resolve [OF m p, of toy_lib] u r
    by (simp add: accented_item_def accented_main_def)
  have b: "hash_base toy_lib (PStr accented_url) accented_main = accented_url"
    by (simp add: hash_base_def accented_nonempty length_accented)
  have c: "length (utf8_encode accented_url) = 512"
    unfolding accented_url_def by (simp add: length_utf8_accented)
  from a b c show ?thesis by simp
qed

text \<open>
  C9 at an entry with a detail URL, whose identifier is the number in the URL, and at the
  URL of accented letters, which the pattern does not match.
\<close>

theorem identity_resolver_witness:
  "item_id toy_lib sample_item = Inr (str ''7654321'')
   \<and> re_search toy_lib sample_url = Some (str ''7654321'')
   \<and> resolve_id toy_lib (PStr sample_url) PNone = Inr (str ''7654321'')
   \<and> natural_id toy_lib (str ''7654321'')
   \<and> \<not> synthetic_id (str ''7654321'')
   \<and> re_search toy_lib accented_url = None
   \<and> resolve_id toy_lib (PStr accented_url) accented_main =
       Inr (str ''hash_'' @ md5_hexdigest toy_lib (utf8_encode (take 256 accented_url)))"
proof -
  have n: "re_search toy_lib accented_url = None"
    by (rule re_search_no_d [OF accented_no_d])
  have "resolve_id toy_lib (PStr sample_url) PNone = Inr (str ''7654321'')
      \<and> natural_id toy_lib (str ''7654321'') \<and> \<not> synthetic_id (str ''7654321'')"
    using identity_resolver [of toy_lib sample_item 1 0 None None "[]" sample_doc 1 0 None None
        "[]" sample_doc 1 1 "[]" "[]" PNone sample_url "str ''7654321''" PNone PNone
        "str ''7654321''"]
      re_search_sample
    by blast
  moreover have "resolve_id toy_lib (PStr accented_url) accented_main =
       Inr (str ''hash_'' @ md5_hexdigest toy_lib (utf8_encode (take 256 accented_url)))"
    using identity_resolver [of toy_lib sample_item 1 0 None None "[]" sample_doc 1 0 None None
        "[]" sample_doc 1 1 "[]" "[]" PNone accented_url "[]" accented_main PNone "[]"]
      n accented_nonempty
    by blast
  ultimately show ?thesis
    using n re_search_sample item_id_sample by blast
qed



section \<open>Properties of the detail fetch engine\<close>

lemma sig_shift_small: "n < 2 ^ 53 \<Longrightarrow> sig_shift n = 0"
  by (simp add: sig_shift.simps)

lemma round_sig_small: "n < 2 ^ 53 \<Longrightarrow> round_sig n = n"
  by (simp add: round_sig_def sig_shift_small)

lemma sig_shift_div: "n div 2 ^ sig_shift n < 2 ^ 53"
proof (induction n rule: sig_shift.induct)
  case (1 n)
  show ?case
  proof (cases "n < 2 ^ 53")
    case True
    then show ?thesis by (simp add: sig_shift_small)
  next
    case False
    then have s: "sig_shift n = Suc (sig_shift (n div 2))"
      by (subst sig_shift.simps) simp
    from 1 [OF False] show ?thesis
      unfolding s by (simp add: div_mult2_eq)
  qed
qed

lemma sig_shift_lower: "0 < sig_shift n \<Longrightarrow> 2 ^ 52 \<le> n div 2 ^ sig_shift n"
proof (induction n rule: sig_shift.induct)
  case (1 n)
  show ?case
  proof (cases "n < 2 ^ 53")
    case True
    with 1(2) show ?thesis by (simp add: sig_shift_small)
  next
    case False
    then have s: "sig_shift n = Suc (sig_shift (n div 2))"
      by (subst sig_shift.simps) simp
    show ?thesis
    proof (cases "0 < sig_shift (n div 2)")
      case True
      from 1(1) [OF False True] show ?thesis
        unfolding s by (simp add: div_mult2_eq)
    next
      case z: False
      from False have "2 ^ 52 \<le> n div 2" by simp
      with z show ?thesis unfolding s by simp
    qed
  qed
qed



lemma round_sig_floor: "n div 2 ^ sig_shift n * 2 ^ sig_shift n \<le> round_sig n"
  by (simp add: round_sig_def Let_def)

lemma round_sig_ceil:
  "round_sig n = n div 2 ^ sig_shift n * 2 ^ sig_shift n
   \<or> (round_sig n = (n div 2 ^ sig_shift n + 1) * 2 ^ sig_shift n
      \<and> 2 ^ sig_shift n \<le> 2 * (n mod 2 ^ sig_shift n))"
  by (simp add: round_sig_def Let_def)

lemma round_sig_lower: "2 ^ 52 * n \<le> (2 ^ 52 + 1) * round_sig n"
proof (cases "sig_shift n = 0")
  case True
  then show ?thesis by (simp add: round_sig_def)
next
  case False
  define e where "e = sig_shift n"
  define m where "m = n div 2 ^ e * 2 ^ e"
  from False have "2 ^ 52 \<le> n div 2 ^ e"
    unfolding e_def by (intro sig_shift_lower) simp
  then have "2 ^ 52 * 2 ^ e \<le> n div 2 ^ e * 2 ^ e"
    by (rule mult_le_mono1)
  then have a: "2 ^ 52 * (2::nat) ^ e \<le> m" by (simp add: m_def)
  have "n mod 2 ^ e < 2 ^ e" by simp
  then have "2 ^ 52 * (n mod 2 ^ e) \<le> 2 ^ 52 * 2 ^ e" by simp
  then have b: "2 ^ 52 * (n mod 2 ^ e) \<le> m" by (rule le_trans [OF _ a])
  have n: "n = m + n mod 2 ^ e" unfolding m_def by (rule div_mult_mod_eq [symmetric])
  have "2 ^ 52 * n = 2 ^ 52 * m + 2 ^ 52 * (n mod 2 ^ e)"
    by (subst n) (simp only: distrib_left)
  also from b have "\<dots> \<le> 2 ^ 52 * m + m" by simp
  also have "\<dots> = (2 ^ 52 + 1) * m" by simp
  also from round_sig_floor [of n] have "\<dots> \<le> (2 ^ 52 + 1) * round_sig n"
    unfolding m_def e_def by (rule mult_le_mono2)
  finally show ?thesis .
qed

lemma round_sig_upper: "2 ^ 53 * round_sig n \<le> (2 ^ 53 + 1) * n"
proof -
  define e where "e = sig_shift n"
  define m where "m = n div 2 ^ e * 2 ^ e"
  have n: "n = m + n mod 2 ^ e" unfolding m_def by (rule div_mult_mod_eq [symmetric])
  from round_sig_ceil [of n]
  consider "round_sig n = m"
    | "round_sig n = m + 2 ^ e" "2 ^ e \<le> 2 * (n mod 2 ^ e)"
    unfolding m_def e_def by auto
  then show ?thesis
  proof cases
    case 1
    have "m \<le> n" using n by simp
    then have "2 ^ 53 * m \<le> 2 ^ 53 * n" by simp
    also have "\<dots> \<le> (2 ^ 53 + 1) * n" by simp
    finally show ?thesis using 1 by simp
  next
    case 2
    have pos: "0 < e"
    proof (rule ccontr)
      assume "\<not> 0 < e"
      then have "e = 0" by simp
      with 2(2) show False by simp
    qed
    then have "2 ^ 52 \<le> n div 2 ^ e"
      unfolding e_def by (rule sig_shift_lower)
    then have "2 ^ 52 * 2 ^ e \<le> n div 2 ^ e * 2 ^ e"
      by (rule mult_le_mono1)
    then have a: "2 ^ 52 * (2::nat) ^ e \<le> m" by (simp add: m_def)
    have "m \<le> n" using n by simp
    with a have a': "2 ^ 52 * (2::nat) ^ e \<le> n" by simp
    from 2(2) n have "2 * m + 2 ^ e \<le> 2 * n" by simp
    then have "2 * round_sig n + 2 ^ e \<le> 2 * n + 2 * 2 ^ e" using 2(1) by simp
    then have "2 ^ 52 * (2 * round_sig n + 2 ^ e) \<le> 2 ^ 52 * (2 * n + 2 * 2 ^ e)"
      by (rule mult_le_mono2)
    then have "2 ^ 53 * round_sig n + 2 ^ 52 * 2 ^ e \<le> 2 ^ 53 * n + 2 * (2 ^ 52 * 2 ^ e)"
      by (simp add: algebra_simps)
    then have "2 ^ 53 * round_sig n \<le> 2 ^ 53 * n + 2 ^ 52 * 2 ^ e" by simp
    also from a' have "\<dots> \<le> 2 ^ 53 * n + n" by simp
    also have "\<dots> = (2 ^ 53 + 1) * n" by simp
    finally show ?thesis .
  qed
qed

lemma round_sig_power: assumes "2 ^ k \<le> n" shows "2 ^ k \<le> round_sig n"
proof -
  define e where "e = sig_shift n"
  have "2 ^ k \<le> n div 2 ^ e * 2 ^ e"
  proof (cases "e \<le> k")
    case True
    then have "(2::nat) ^ k = 2 ^ (k - e) * 2 ^ e"
      by (simp add: power_add [symmetric])
    moreover from this assms have "2 ^ (k - e) \<le> n div 2 ^ e"
      by (simp add: less_eq_div_iff_mult_less_eq)
    ultimately show ?thesis by simp
  next
    case False
    then have "0 < e" by simp
    then have "2 ^ 52 \<le> n div 2 ^ e" unfolding e_def by (rule sig_shift_lower)
    then have "1 \<le> n div 2 ^ e" by simp
    then have "1 * 2 ^ e \<le> n div 2 ^ e * 2 ^ e" by (rule mult_le_mono1)
    then have "(2::nat) ^ e \<le> n div 2 ^ e * 2 ^ e" by simp
    moreover from False have "(2::nat) ^ k \<le> 2 ^ e" by simp
    ultimately show ?thesis by (rule le_trans [rotated])
  qed
  with round_sig_floor [of n] show ?thesis unfolding e_def by simp
qed


lemma times_multiplier_exact:
  assumes "3 * c < 2 ^ 53"
  shows "times_multiplier c = Inr ((3 * c) div 2)"
proof -
  from assms have c: "c < 2 ^ 53" by simp
  have p: "(2::nat) ^ 53 \<le> 2 ^ 1024" "(2::nat) ^ 53 \<le> 2 ^ 1025"
    by (rule power_increasing; simp)+
  from c p(1) have "\<not> 2 ^ 1024 \<le> c" by linarith
  moreover from assms p(2) have "\<not> 2 ^ 1025 \<le> 3 * c" by linarith
  ultimately show ?thesis
    using assms c by (simp add: times_multiplier_def round_sig_small Let_def del: power_numeral)
qed

lemma times_multiplier_grows:
  assumes "2 \<le> c" "times_multiplier c = Inr d"
  shows "c < d"
proof -
  define x where "x = round_sig c"
  define y where "y = round_sig (3 * x)"
  from assms(2) have d: "d = y div 2"
    by (simp add: times_multiplier_def Let_def x_def y_def split: if_splits)
  from round_sig_lower [of c] have a: "2 ^ 52 * c \<le> (2 ^ 52 + 1) * x" by (simp only: x_def)
  from round_sig_lower [of "3 * x"] have b: "2 ^ 52 * (3 * x) \<le> (2 ^ 52 + 1) * y"
    by (simp only: y_def)
  have "2 * c + 2 \<le> y"
  proof (rule ccontr)
    assume "\<not> 2 * c + 2 \<le> y"
    then have "y \<le> 2 * c + 1" by simp
    with a b assms(1) show False by simp
  qed
  then show ?thesis unfolding d by simp
qed


lemma times_multiplier_defined:
  assumes "c < 2 ^ 1023"
  shows "\<exists>d. times_multiplier c = Inr d"
proof -
  define x where "x = round_sig c"
  define y where "y = round_sig (3 * x)"
  from round_sig_upper [of c] have a: "2 ^ 53 * x \<le> (2 ^ 53 + 1) * c" by (simp only: x_def)
  from round_sig_upper [of "3 * x"] have b: "2 ^ 53 * y \<le> (2 ^ 53 + 1) * (3 * x)"
    by (simp only: y_def)
  from a assms have x: "x < 2 ^ 1024" by simp
  from a b assms have y: "y < 2 ^ 1025" by simp
  from x y show ?thesis
    by (simp add: times_multiplier_def Let_def x_def [symmetric] y_def [symmetric]
        del: power_numeral)
qed

lemma times_multiplier_bounded: "times_multiplier c = Inr d \<Longrightarrow> d < 2 ^ 1024"
  by (auto simp: times_multiplier_def Let_def split: if_splits)

lemma times_multiplier_overflow:
  assumes "2 ^ 1024 \<le> c"
  shows "times_multiplier c = Inl OverflowError"
  using round_sig_power [OF assms] by (simp add: times_multiplier_def del: power_numeral)

lemma times_multiplier_error: "times_multiplier c = Inl e \<Longrightarrow> e = OverflowError"
  by (auto simp: times_multiplier_def Let_def split: if_splits)

lemma sig_shift_rounded: "sig_shift 19313868335230722 = 2"
  by (simp add: sig_shift.simps)

lemma times_multiplier_rounded: "times_multiplier 6437956111743574 = Inr 9656934167615360"
proof -
  have "round_sig 6437956111743574 = 6437956111743574"
    by (rule round_sig_small) simp
  moreover have "round_sig 19313868335230722 = 19313868335230720"
    by (simp add: round_sig_def sig_shift_rounded)
  ultimately show ?thesis by (simp add: times_multiplier_def)
qed

lemma cooldown_product_nonneg:
  "0 \<le> c \<Longrightarrow> cooldown_product c = map_sum id int (times_multiplier (nat c))"
  by (simp add: cooldown_product_def split: sum.splits)

lemma cooldown_product_exact:
  assumes "0 \<le> c" "3 * c < 2 ^ 53"
  shows "cooldown_product c = Inr ((3 * c) div 2)"
proof -
  from assms have "3 * nat c < 2 ^ 53" by (simp add: nat_less_iff)
  from times_multiplier_exact [OF this] assms(1) show ?thesis
    by (simp add: cooldown_product_def zdiv_int)
qed

lemma cooldown_product_grows:
  assumes "2 \<le> c" "cooldown_product c = Inr d"
  shows "c < d"
proof -
  from assms obtain d' where d': "times_multiplier (nat c) = Inr d'" "d = int d'"
    by (auto simp: cooldown_product_def split: sum.splits if_splits)
  from assms(1) have "2 \<le> nat c" by simp
  from times_multiplier_grows [OF this d'(1)] d'(2) show ?thesis by simp
qed

lemma cooldown_product_defined:
  assumes "0 \<le> c" "c < 2 ^ 1023"
  shows "\<exists>d. cooldown_product c = Inr d"
proof -
  from assms have "nat c < 2 ^ 1023" by (simp add: nat_less_iff)
  from times_multiplier_defined [OF this] assms(1) show ?thesis
    by (auto simp: cooldown_product_def)
qed

lemma cooldown_product_bounded:
  "cooldown_product c = Inr d \<Longrightarrow> \<bar>d\<bar> < 2 ^ 1024"
proof -
  assume a: "cooldown_product c = Inr d"
  then obtain d' where d': "times_multiplier (nat \<bar>c\<bar>) = Inr d'" "\<bar>d\<bar> = int d'"
    by (auto simp: cooldown_product_def split: sum.splits if_splits)
  from times_multiplier_bounded [OF d'(1)] have "int d' < 2 ^ 1024"
    by (simp only: of_nat_less_numeral_power_cancel_iff)
  with d'(2) show ?thesis by simp
qed

lemma cooldown_product_overflow:
  assumes "2 ^ 1024 \<le> c"
  shows "cooldown_product c = Inl OverflowError"
proof -
  from assms have "2 ^ 1024 \<le> nat \<bar>c\<bar>" by (simp add: le_nat_iff)
  from times_multiplier_overflow [OF this] show ?thesis
    by (simp add: cooldown_product_def)
qed

lemma cooldown_product_error: "cooldown_product c = Inl e \<Longrightarrow> e = OverflowError"
  by (auto simp: cooldown_product_def dest: times_multiplier_error split: sum.splits)

lemma next_cooldown_product: "cooldown_product c = Inr d \<Longrightarrow> next_cooldown c = d"
  by (simp add: next_cooldown_def)

lemma next_cooldown_initial: "next_cooldown 900 = 1350"
proof -
  have "cooldown_product 900 = Inr ((3 * 900) div 2)"
    by (rule cooldown_product_exact) simp_all
  then show ?thesis by (simp add: next_cooldown_def)
qed

lemma cooldown_after_values:
  "cooldown_after 0 = Inr 900" "cooldown_after 1 = Inr 1350" "cooldown_after 2 = Inr 2025"
  "cooldown_after 3 = Inr 3037"
proof -
  have p: "cooldown_product 900 = Inr 1350" "cooldown_product 1350 = Inr 2025"
    "cooldown_product 2025 = Inr 3037"
    by (subst cooldown_product_exact; simp)+
  show 0: "cooldown_after 0 = Inr 900" by (simp add: INITIAL_COOLDOWN_def)
  from 0 p(1) have 1: "cooldown_after (Suc 0) = Inr 1350" by simp
  from 1 p(2) have 2: "cooldown_after (Suc (Suc 0)) = Inr 2025" by simp
  from 2 p(3) have 3: "cooldown_after (Suc (Suc (Suc 0))) = Inr 3037" by simp
  from 1 show "cooldown_after 1 = Inr 1350" by simp
  from 2 show "cooldown_after 2 = Inr 2025" by (simp only: numeral_2_eq_2)
  from 3 show "cooldown_after 3 = Inr 3037" by (simp only: numeral_3_eq_3)
qed

lemma cooldown_after_lower: "cooldown_after n = Inr c \<Longrightarrow> 900 + int n \<le> c"
proof (induction n arbitrary: c)
  case 0
  then show ?case by (simp add: INITIAL_COOLDOWN_def)
next
  case (Suc n)
  from Suc.prems obtain c' where c': "cooldown_after n = Inr c'" "cooldown_product c' = Inr c"
    by (auto split: sum.splits)
  from Suc.IH [OF c'(1)] have l: "900 + int n \<le> c'" .
  then have "2 \<le> c'" by simp
  from cooldown_product_grows [OF this c'(2)] l show ?case by simp
qed

lemma cooldown_after_increasing:
  assumes "cooldown_after n = Inr c" "cooldown_after (Suc n) = Inr c'"
  shows "c < c'"
proof -
  from cooldown_after_lower [OF assms(1)] have "2 \<le> c" by simp
  moreover from assms have "cooldown_product c = Inr c'" by simp
  ultimately show ?thesis by (rule cooldown_product_grows)
qed

lemma cooldown_after_reaches:
  assumes "b < 2 ^ 1023"
  shows "\<exists>k c. cooldown_after k = Inr c \<and> b < c"
proof -
  have step: "(\<exists>k c. cooldown_after k = Inr c \<and> b < c)
      \<or> (\<exists>c. cooldown_after n = Inr c \<and> c \<le> b)" for n
  proof (induction n)
    case 0
    show ?case
    proof (cases "b < 900")
      case True
      then have "cooldown_after 0 = Inr 900 \<and> b < 900" by (simp add: INITIAL_COOLDOWN_def)
      then show ?thesis by blast
    next
      case False
      then show ?thesis by (simp add: INITIAL_COOLDOWN_def)
    qed
  next
    case (Suc n)
    from Suc show ?case
    proof
      assume "\<exists>k c. cooldown_after k = Inr c \<and> b < c"
      then show ?thesis ..
    next
      assume "\<exists>c. cooldown_after n = Inr c \<and> c \<le> b"
      then obtain c where c: "cooldown_after n = Inr c" "c \<le> b" by blast
      from cooldown_after_lower [OF c(1)] have "0 \<le> c" by simp
      moreover from c(2) assms have "c < 2 ^ 1023" by simp
      ultimately obtain c' where c': "cooldown_product c = Inr c'"
        using cooldown_product_defined by blast
      with c(1) have s: "cooldown_after (Suc n) = Inr c'" by simp
      show ?thesis
      proof (cases "b < c'")
        case True
        with s show ?thesis by blast
      next
        case False
        with s show ?thesis by simp
      qed
    qed
  qed
  from step [of "nat b"] show ?thesis
  proof
    assume "\<exists>c. cooldown_after (nat b) = Inr c \<and> c \<le> b"
    then obtain c where c: "cooldown_after (nat b) = Inr c" "c \<le> b" by blast
    from cooldown_after_lower [OF c(1)] c(2) have False by (cases "0 \<le> b") simp_all
    then show ?thesis ..
  qed
qed

lemma cooldown_after_error: "cooldown_after n = Inl e \<Longrightarrow> e = OverflowError"
proof (induction n)
  case 0
  then show ?case by simp
next
  case (Suc n)
  then show ?case
    by (auto dest: cooldown_product_error split: sum.splits)
qed

lemma cooldown_after_raises: "\<exists>n. cooldown_after n = Inl OverflowError"
proof -
  define N :: nat where "N = 2 ^ 1024"
  have N: "int N = 2 ^ 1024" by (simp add: N_def del: power_numeral)
  show ?thesis
  proof (cases "cooldown_after N")
    case (Inl e)
    from cooldown_after_error [OF this] Inl show ?thesis by blast
  next
    case (Inr c)
    from cooldown_after_lower [OF this] have "int N \<le> c" by simp
    then have "2 ^ 1024 \<le> c" by (simp only: N)
    from cooldown_product_overflow [OF this] Inr
    have "cooldown_after (Suc N) = Inl OverflowError" by simp
    then show ?thesis ..
  qed
qed

text \<open>
  C3, as the code has it. A cooldown of the sequential scraper that runs to its end (no
  shutdown) and whose product exists returns \<open>True\<close>, has waited the present duration, sets
  \<open>current_cooldown\<close> to the product, resets \<open>consecutive_challenges\<close> to 0 and has counted
  the cooldown. A cooldown of the asynchronous scraper that resumes right after it was
  entered (no other coroutine has entered or left a cooldown in between) does the same.

  The product is that of binary64, cut to a whole number of seconds. As long as three times
  the duration is below \<open>2 ^ 53\<close> it is 1.5 times the duration rounded down: the product
  itself when the duration is even and half a second less when it is odd. From 2 seconds
  on, a product that exists is longer than the duration. Every duration below \<open>2 ^ 1023\<close>
  seconds has a product; no duration from \<open>2 ^ 1024\<close> on has one, the multiplication raises
  \<open>OverflowError\<close>.

  Starting at 900 seconds the second cooldown lasts 1350 seconds, each cooldown is longer
  than the one before, and every bound below \<open>2 ^ 1023\<close> seconds is exceeded.
\<close>

theorem cooldown_expiry:
  "(\<not> SHUTDOWN_REQUESTED s \<and> cooldown_product (current_cooldown s) = Inr d \<longrightarrow>
      fst (handle_cooldown False s) = True
      \<and> current_cooldown (snd (handle_cooldown False s)) = d
      \<and> consecutive_challenges (snd (handle_cooldown False s)) = 0
      \<and> cooldown_count (snd (handle_cooldown False s)) = cooldown_count s + 1
      \<and> cooldown_waits (snd (handle_cooldown False s)) = cooldown_waits s @ [current_cooldown s])
   \<and> (cooldown_product (as_current_cooldown a) = Inr d' \<longrightarrow>
      as_current_cooldown (async_cooldown_resume (async_cooldown_enter a)) = d'
      \<and> as_consecutive_challenges (async_cooldown_resume (async_cooldown_enter a)) = 0
      \<and> as_cooldown_count (async_cooldown_resume (async_cooldown_enter a))
          = as_cooldown_count a + 1
      \<and> as_sleeps (async_cooldown_resume (async_cooldown_enter a))
          = as_sleeps a @ [as_current_cooldown a])
   \<and> (0 \<le> c \<and> 3 * c < 2 ^ 53 \<longrightarrow>
      cooldown_product c = Inr ((3 * c) div 2)
      \<and> real_of_int ((3 * c) div 2) \<le> 1.5 * real_of_int c
      \<and> 1.5 * real_of_int c < real_of_int ((3 * c) div 2) + 1)
   \<and> (even c \<and> 0 \<le> c \<and> 3 * c < 2 ^ 53 \<longrightarrow>
      (\<exists>p. cooldown_product c = Inr p \<and> real_of_int p = 1.5 * real_of_int c))
   \<and> (2 \<le> c \<and> cooldown_product c = Inr p \<longrightarrow> c < p)
   \<and> (0 \<le> c \<and> c < 2 ^ 1023 \<longrightarrow> (\<exists>p. cooldown_product c = Inr p))
   \<and> (2 ^ 1024 \<le> c \<longrightarrow> cooldown_product c = Inl OverflowError)
   \<and> current_cooldown (initial_scraper details props) = 900
   \<and> as_current_cooldown initial_async_scraper = 900
   \<and> cooldown_after 0 = Inr 900 \<and> cooldown_after 1 = Inr 1350
   \<and> (cooldown_after n = Inr c1 \<and> cooldown_after (Suc n) = Inr c2 \<longrightarrow> c1 < c2)
   \<and> (b < 2 ^ 1023 \<longrightarrow> (\<exists>k p. cooldown_after k = Inr p \<and> b < p))"
proof (intro conjI impI)
  assume h: "\<not> SHUTDOWN_REQUESTED s \<and> cooldown_product (current_cooldown s) = Inr d"
  then have n: "next_cooldown (current_cooldown s) = d" by (simp add: next_cooldown_product)
  from h show "fst (handle_cooldown False s) = True"
    by (simp add: handle_cooldown_def Let_def)
  from h n show "current_cooldown (snd (handle_cooldown False s)) = d"
    by (simp add: handle_cooldown_def Let_def)
  from h show "consecutive_challenges (snd (handle_cooldown False s)) = 0"
    by (simp add: handle_cooldown_def Let_def)
  from h show "cooldown_count (snd (handle_cooldown False s)) = cooldown_count s + 1"
    by (simp add: handle_cooldown_def Let_def)
  from h show "cooldown_waits (snd (handle_cooldown False s))
      = cooldown_waits s @ [current_cooldown s]"
    by (simp add: handle_cooldown_def Let_def)
next
  assume h: "cooldown_product (as_current_cooldown a) = Inr d'"
  then have n: "next_cooldown (as_current_cooldown a) = d'" by (rule next_cooldown_product)
  from n show "as_current_cooldown (async_cooldown_resume (async_cooldown_enter a)) = d'"
    by (simp add: async_cooldown_resume_def async_cooldown_enter_def)
  show "as_consecutive_challenges (async_cooldown_resume (async_cooldown_enter a)) = 0"
    by (simp add: async_cooldown_resume_def async_cooldown_enter_def)
  show "as_cooldown_count (async_cooldown_resume (async_cooldown_enter a))
      = as_cooldown_count a + 1"
    by (simp add: async_cooldown_resume_def async_cooldown_enter_def)
  show "as_sleeps (async_cooldown_resume (async_cooldown_enter a))
      = as_sleeps a @ [as_current_cooldown a]"
    by (simp add: async_cooldown_resume_def async_cooldown_enter_def)
next
  assume h: "0 \<le> c \<and> 3 * c < 2 ^ 53"
  then show "cooldown_product c = Inr ((3 * c) div 2)"
    by (simp add: cooldown_product_exact)
  have "2 * ((3 * c) div 2) \<le> 3 * c" and "3 * c < 2 * ((3 * c) div 2) + 2"
    by arith+
  then have "real_of_int (2 * ((3 * c) div 2)) \<le> real_of_int (3 * c)"
    and "real_of_int (3 * c) < real_of_int (2 * ((3 * c) div 2) + 2)"
    by (simp_all only: of_int_le_iff of_int_less_iff)
  then show "real_of_int ((3 * c) div 2) \<le> 1.5 * real_of_int c"
    and "1.5 * real_of_int c < real_of_int ((3 * c) div 2) + 1"
    by simp_all
next
  assume h: "even c \<and> 0 \<le> c \<and> 3 * c < 2 ^ 53"
  then obtain k where k: "c = 2 * k" by (auto elim: evenE)
  from h have "cooldown_product c = Inr ((3 * c) div 2)"
    by (simp add: cooldown_product_exact)
  moreover from k have "real_of_int ((3 * c) div 2) = 1.5 * real_of_int c" by simp
  ultimately show "\<exists>p. cooldown_product c = Inr p \<and> real_of_int p = 1.5 * real_of_int c"
    by blast
next
  assume "2 \<le> c \<and> cooldown_product c = Inr p"
  then show "c < p" using cooldown_product_grows by blast
next
  assume "0 \<le> c \<and> c < 2 ^ 1023"
  then show "\<exists>p. cooldown_product c = Inr p" using cooldown_product_defined by blast
next
  assume "2 ^ 1024 \<le> c"
  then show "cooldown_product c = Inl OverflowError" by (rule cooldown_product_overflow)
next
  show "current_cooldown (initial_scraper details props) = 900"
    by (simp add: initial_scraper_def INITIAL_COOLDOWN_def)
  show "as_current_cooldown initial_async_scraper = 900"
    by (simp add: initial_async_scraper_def INITIAL_COOLDOWN_def)
  show "cooldown_after 0 = Inr 900" by (rule cooldown_after_values)
  show "cooldown_after 1 = Inr 1350" by (rule cooldown_after_values)
next
  assume "cooldown_after n = Inr c1 \<and> cooldown_after (Suc n) = Inr c2"
  then show "c1 < c2" using cooldown_after_increasing by blast
next
  assume "b < 2 ^ 1023"
  then show "\<exists>k p. cooldown_after k = Inr p \<and> b < p" by (rule cooldown_after_reaches)
qed

lemma async_overlap:
  "as_sleeps (async_cooldown_resume (async_cooldown_resume
      (async_cooldown_enter (async_cooldown_enter initial_async_scraper)))) = [900, 900]
   \<and> as_current_cooldown (async_cooldown_resume (async_cooldown_resume
      (async_cooldown_enter (async_cooldown_enter initial_async_scraper)))) = 2025
   \<and> as_cooldown_count (async_cooldown_resume (async_cooldown_resume
      (async_cooldown_enter (async_cooldown_enter initial_async_scraper)))) = 2"
proof -
  have "cooldown_product 1350 = Inr ((3 * 1350) div 2)"
    by (rule cooldown_product_exact) simp_all
  then have "next_cooldown 1350 = 2025" by (simp add: next_cooldown_def)
  then show ?thesis
    by (simp add: async_cooldown_resume_def async_cooldown_enter_def initial_async_scraper_def
        INITIAL_COOLDOWN_def next_cooldown_initial)
qed

lemma cooldown_product_rounded:
  "cooldown_product 6437956111743574 = Inr 9656934167615360"
  using times_multiplier_rounded by (simp add: cooldown_product_def)

text \<open>
  C3 as the specification words it fails in four ways. "Multiplied by the fixed factor
  1.5": the third cooldown lasts 2025 seconds and the fourth 3037, not 3037.5; and the
  product of 6437956111743574 seconds, an even number, is 9656934167615360, one less than
  1.5 times it, because binary64 has no odd number of that size. "No upper bound": some
  expiry raises \<open>OverflowError\<close>. "The second cooldown equals 1350 seconds": when a second
  coroutine of the asynchronous scraper enters its cooldown before the first has resumed,
  both sleep 900 seconds, and the duration is 2025 seconds after them.
\<close>

theorem cooldown_truncation_counterexample:
  "cooldown_after 2 = Inr 2025 \<and> cooldown_after 3 = Inr 3037
   \<and> real_of_int 3037 \<noteq> 1.5 * real_of_int 2025
   \<and> cooldown_product 6437956111743574 = Inr 9656934167615360
   \<and> real_of_int 9656934167615360 \<noteq> 1.5 * real_of_int 6437956111743574
   \<and> (\<exists>n. cooldown_after n = Inl OverflowError)
   \<and> as_sleeps (async_cooldown_resume (async_cooldown_resume
        (async_cooldown_enter (async_cooldown_enter initial_async_scraper)))) = [900, 900]
   \<and> as_current_cooldown (async_cooldown_resume (async_cooldown_resume
        (async_cooldown_enter (async_cooldown_enter initial_async_scraper)))) = 2025"
proof -
  have "real_of_int 3037 \<noteq> 1.5 * real_of_int 2025" by simp
  moreover have "real_of_int 9656934167615360 \<noteq> 1.5 * real_of_int 6437956111743574" by simp
  ultimately show ?thesis
    using cooldown_after_values(3,4) cooldown_product_rounded cooldown_after_raises
      async_overlap
    by (intro conjI) simp_all
qed

text \<open>
  C3 at the scrapers as constructed: the first cooldown lasts 900 seconds, and after it
  the duration is 1350 seconds; durations of more than a day are reached, and the product
  of \<open>2 ^ 1024\<close> seconds raises.
\<close>

theorem cooldown_expiry_witness:
  "\<not> SHUTDOWN_REQUESTED (initial_scraper Map.empty [])
   \<and> cooldown_product (current_cooldown (initial_scraper Map.empty [])) = Inr 1350
   \<and> fst (handle_cooldown False (initial_scraper Map.empty [])) = True
   \<and> current_cooldown (snd (handle_cooldown False (initial_scraper Map.empty []))) = 1350
   \<and> consecutive_challenges (snd (handle_cooldown False (initial_scraper Map.empty []))) = 0
   \<and> cooldown_count (snd (handle_cooldown False (initial_scraper Map.empty []))) = 1
   \<and> cooldown_waits (snd (handle_cooldown False (initial_scraper Map.empty []))) = [900]
   \<and> as_current_cooldown (async_cooldown_resume (async_cooldown_enter initial_async_scraper))
       = 1350
   \<and> as_sleeps (async_cooldown_resume (async_cooldown_enter initial_async_scraper)) = [900]
   \<and> (0::int) \<le> 900 \<and> even (900::int) \<and> (3::int) * 900 < 2 ^ 53 \<and> (900::int) < 2 ^ 1023
   \<and> cooldown_product 900 = Inr 1350
   \<and> cooldown_after 0 = Inr 900 \<and> cooldown_after (Suc 0) = Inr 1350
   \<and> (86400::int) < 2 ^ 1023
   \<and> (\<exists>k p. cooldown_after k = Inr p \<and> 86400 < p)
   \<and> cooldown_product (2 ^ 1024) = Inl OverflowError"
proof -
  let ?s = "initial_scraper Map.empty []"
  have i: "\<not> SHUTDOWN_REQUESTED ?s" "current_cooldown ?s = 900" "cooldown_count ?s = 0"
    "cooldown_waits ?s = []"
    by (simp_all add: initial_scraper_def INITIAL_COOLDOWN_def)
  have j: "as_current_cooldown initial_async_scraper = 900"
    "as_sleeps initial_async_scraper = []"
    by (simp_all add: initial_async_scraper_def INITIAL_COOLDOWN_def)
  have p: "cooldown_product 900 = Inr 1350"
    by (subst cooldown_product_exact) simp_all
  with i(2) have p': "cooldown_product (current_cooldown ?s) = Inr 1350" by simp
  have r: "(0::int) \<le> 900" "even (900::int)" "(3::int) * 900 < 2 ^ 53"
    "(900::int) < 2 ^ 1023" "(86400::int) < 2 ^ 1023"
    by simp_all
  note t = cooldown_expiry [where s = ?s and d = 1350 and a = initial_async_scraper
      and d' = 1350 and c = 900 and p = 1350 and b = 86400 and n = 0 and ?c1.0 = 900
      and ?c2.0 = 1350]
  from t i p have 1: "fst (handle_cooldown False ?s) = True"
    "current_cooldown (snd (handle_cooldown False ?s)) = 1350"
    "consecutive_challenges (snd (handle_cooldown False ?s)) = 0"
    "cooldown_count (snd (handle_cooldown False ?s)) = 1"
    "cooldown_waits (snd (handle_cooldown False ?s)) = [900]"
    by simp_all
  from t j p have 2: "as_current_cooldown (async_cooldown_resume
        (async_cooldown_enter initial_async_scraper)) = 1350"
    "as_sleeps (async_cooldown_resume (async_cooldown_enter initial_async_scraper)) = [900]"
    by simp_all
  from t r(5) have 3: "\<exists>k p. cooldown_after k = Inr p \<and> 86400 < p" by blast
  from t have 4: "cooldown_after 0 = Inr 900" "cooldown_after (Suc 0) = Inr 1350"
    by simp_all
  from cooldown_expiry [where c = "2 ^ 1024"]
  have 5: "cooldown_product (2 ^ 1024) = Inl OverflowError" by simp
  from i(1) p' 1 2 r(1,2,3,4) p 4 r(5) 3 5 show ?thesis by (intro conjI)
qed

lemma process_property_skip:
  "has_success s (property_id doc) \<Longrightarrow>
   process_property tbl env doc s =
     (if truthy (detailed_url doc) then (True, s\<lparr>stats_skipped := stats_skipped s + 1\<rparr>)
      else (False, s))"
  by (simp add: process_property_def has_success_def Let_def)

lemma fetch_transport_failure: "transport_failure env \<Longrightarrow> fetch_property_html (de_response env) = None"
  by (cases "de_response env") (auto simp: transport_failure_def)

lemma process_property_failure:
  assumes "fetch_property_html (de_response env) = None" "truthy (detailed_url doc)"
    "\<not> has_success s (property_id doc)"
  shows "process_property tbl env doc s =
     (False,
      s\<lparr>requests_sent := requests_sent s @ [detailed_url doc],
        stats_failed := stats_failed s + 1,
        details_coll :=
          set_failure (property_id doc) (detailed_url doc) (de_now env)
            (str ''Failed to fetch HTML'') (details_coll s)\<rparr>)"
  using assms by (simp add: process_property_def has_success_def Let_def)





lemma has_success_processed [simp]:
  "has_success (s\<lparr>stats_processed := n\<rparr>) pid = has_success s pid"
  by (simp add: has_success_def)





lemma truthy_listing: "truthy (detailed_url (listing pid))"
  by (simp add: listing_def str_def)






lemma process_property_requests:
  assumes "truthy (detailed_url doc)" "\<not> has_success s (property_id doc)"
  shows "requests_sent (snd (process_property tbl env doc s))
         = requests_sent s @ [detailed_url doc]"
  using assms
  by (simp add: process_property_def has_success_def Let_def extraction_error_def
      handle_cooldown_def split: sum.splits)

lemma process_property_processed:
  "stats_processed (snd (process_property tbl env doc s)) = stats_processed s"
  by (simp add: process_property_def Let_def extraction_error_def handle_cooldown_def
      split: sum.splits option.splits)

text \<open>
  C5. An item with a URL and no successful detail record whose fetch fails in transport
  (no response, or a status outside 200 to 299): the call returns \<open>False\<close>; the detail
  record of the item has \<open>extraction_success\<close> false and the error \<open>Failed to fetch HTML\<close>;
  \<open>failed\<close> is one more and the other counters are as before; the consecutive-challenge
  counter, the cooldown duration and count, the time of the last challenge and the shutdown
  flag are unchanged; the listings collection is unchanged and the item still has no
  successful record, so that processing it again requests its URL again; and the loop of
  \<open>run\<close> goes on to the next item.
\<close>

theorem transport_failure_recorded:
  assumes "transport_failure env" and "truthy (detailed_url doc)"
    and "\<not> has_success s (property_id doc)"
  shows "fst (process_property tbl env doc s) = False
       \<and> (\<exists>r. details_coll (snd (process_property tbl env doc s)) (property_id doc) = Some r
              \<and> dr_extraction_success r = False
              \<and> dr_error r = Some (str ''Failed to fetch HTML''))
       \<and> stats_failed (snd (process_property tbl env doc s)) = stats_failed s + 1
       \<and> stats_success (snd (process_property tbl env doc s)) = stats_success s
       \<and> stats_skipped (snd (process_property tbl env doc s)) = stats_skipped s
       \<and> stats_bot_challenges (snd (process_property tbl env doc s)) = stats_bot_challenges s
       \<and> consecutive_challenges (snd (process_property tbl env doc s)) = consecutive_challenges s
       \<and> current_cooldown (snd (process_property tbl env doc s)) = current_cooldown s
       \<and> cooldown_count (snd (process_property tbl env doc s)) = cooldown_count s
       \<and> stats_cooldowns (snd (process_property tbl env doc s)) = stats_cooldowns s
       \<and> last_challenge_time (snd (process_property tbl env doc s)) = last_challenge_time s
       \<and> cooldown_waits (snd (process_property tbl env doc s)) = cooldown_waits s
       \<and> SHUTDOWN_REQUESTED (snd (process_property tbl env doc s)) = SHUTDOWN_REQUESTED s
       \<and> properties_coll (snd (process_property tbl env doc s)) = properties_coll s
       \<and> \<not> has_success (snd (process_property tbl env doc s)) (property_id doc)
       \<and> requests_sent
            (snd (process_property tbl env' doc (snd (process_property tbl env doc s))))
          = requests_sent s @ [detailed_url doc, detailed_url doc]
       \<and> (\<not> SHUTDOWN_REQUESTED s \<and> \<not> de_signal env \<longrightarrow>
            stats_processed (run_loop tbl [(env, doc), (env', doc')] s) = stats_processed s + 2)"
proof -
  let ?s' = "snd (process_property tbl env doc s)"
  note f = fetch_transport_failure [OF assms(1)]
  note eq = process_property_failure [OF f assms(2,3), of tbl]
  have rec: "\<exists>r. details_coll ?s' (property_id doc) = Some r
              \<and> dr_extraction_success r = False
              \<and> dr_error r = Some (str ''Failed to fetch HTML'')"
    unfolding eq by (simp add: set_failure_def split: option.splits)
  then have ns: "\<not> has_success ?s' (property_id doc)"
    by (auto simp: has_success_def)
  have again: "requests_sent (snd (process_property tbl env' doc ?s'))
          = requests_sent s @ [detailed_url doc, detailed_url doc]"
    using process_property_requests [OF assms(2) ns, of tbl env']
      process_property_requests [OF assms(2,3), of tbl env]
    by simp
  have cont: "stats_processed (run_loop tbl [(env, doc), (env', doc')] s) = stats_processed s + 2"
    if "\<not> SHUTDOWN_REQUESTED s" "\<not> de_signal env"
  proof -
    let ?s0 = "s\<lparr>stats_processed := stats_processed s + 1\<rparr>"
    have "\<not> has_success ?s0 (property_id doc)" using assms(3) by simp
    from process_property_failure [OF f assms(2) this, of tbl] that
    show ?thesis
      by (simp add: Let_def process_property_processed)
  qed
  from rec ns again cont show ?thesis
    unfolding eq by simp
qed

text \<open>
  C6. An item with a successful detail record: processing it sends no request and leaves
  both collections, the challenge counter, the cooldown and the success and failure counts
  as they are. When the item has a URL (as every item of the cursor has) the call returns
  \<open>True\<close> and changes nothing but \<open>skipped\<close>, which is one more; processing it a second time
  does the same again. An item marked \<open>detail_scraped\<close> is not in the cursor of \<open>run\<close>.
\<close>

theorem successful_item_skipped:
  assumes "has_success s (property_id doc)"
  shows "requests_sent (snd (process_property tbl env doc s)) = requests_sent s
       \<and> details_coll (snd (process_property tbl env doc s)) = details_coll s
       \<and> properties_coll (snd (process_property tbl env doc s)) = properties_coll s
       \<and> consecutive_challenges (snd (process_property tbl env doc s)) = consecutive_challenges s
       \<and> current_cooldown (snd (process_property tbl env doc s)) = current_cooldown s
       \<and> cooldown_count (snd (process_property tbl env doc s)) = cooldown_count s
       \<and> stats_success (snd (process_property tbl env doc s)) = stats_success s
       \<and> stats_failed (snd (process_property tbl env doc s)) = stats_failed s
       \<and> (truthy (detailed_url doc) \<longrightarrow>
            process_property tbl env doc s = (True, s\<lparr>stats_skipped := stats_skipped s + 1\<rparr>)
            \<and> process_property tbl env' doc (snd (process_property tbl env doc s)) =
                (True, s\<lparr>stats_skipped := stats_skipped s + 2\<rparr>))
       \<and> (detail_scraped x \<longrightarrow> x \<notin> set (cursor limit skip coll))"
proof -
  note eq = process_property_skip [OF assms, of tbl env]
  have twice: "process_property tbl env' doc (snd (process_property tbl env doc s)) =
                (True, s\<lparr>stats_skipped := stats_skipped s + 2\<rparr>)"
    if "truthy (detailed_url doc)"
  proof -
    let ?s' = "s\<lparr>stats_skipped := stats_skipped s + 1\<rparr>"
    from assms have "has_success ?s' (property_id doc)" by (simp add: has_success_def)
    from process_property_skip [OF this, of tbl env'] that eq show ?thesis by simp
  qed
  have cur: "x \<notin> set (cursor limit skip coll)" if "detail_scraped x"
    using that
    by (auto simp: cursor_def pending_def Let_def split: option.splits
        dest!: in_set_dropD in_set_takeD)
  from twice cur show ?thesis
    unfolding eq by simp
qed


text \<open>
  C5 at a listing whose page answers with status 503.
\<close>

theorem transport_failure_witness:
  "transport_failure failed_call
   \<and> truthy (detailed_url (listing ''101''))
   \<and> \<not> has_success (initial_scraper Map.empty [listing ''101'']) (property_id (listing ''101''))
   \<and> fst (process_property identity_table failed_call (listing ''101'')
            (initial_scraper Map.empty [listing ''101''])) = False
   \<and> stats_failed (snd (process_property identity_table failed_call (listing ''101'')
            (initial_scraper Map.empty [listing ''101'']))) = 1
   \<and> consecutive_challenges (snd (process_property identity_table failed_call (listing ''101'')
            (initial_scraper Map.empty [listing ''101'']))) = 0
   \<and> current_cooldown (snd (process_property identity_table failed_call (listing ''101'')
            (initial_scraper Map.empty [listing ''101'']))) = 900
   \<and> properties_coll (snd (process_property identity_table failed_call (listing ''101'')
            (initial_scraper Map.empty [listing ''101'']))) = [listing ''101'']
   \<and> \<not> has_success (snd (process_property identity_table failed_call (listing ''101'')
            (initial_scraper Map.empty [listing ''101'']))) (property_id (listing ''101''))"
proof -
  have a: "transport_failure failed_call"
    by (simp add: transport_failure_def failed_call_def)
  have b: "\<not> has_success (initial_scraper Map.empty [listing ''101''])
      (property_id (listing ''101''))"
    by (simp add: has_success_def initial_scraper_def)
  have c: "stats_failed (initial_scraper Map.empty [listing ''101'']) = 0"
    "consecutive_challenges (initial_scraper Map.empty [listing ''101'']) = 0"
    "current_cooldown (initial_scraper Map.empty [listing ''101'']) = 900"
    "properties_coll (initial_scraper Map.empty [listing ''101'']) = [listing ''101'']"
    by (simp_all add: initial_scraper_def INITIAL_COOLDOWN_def)
  from transport_failure_recorded [OF a truthy_listing b, where tbl = identity_table
      and env' = failed_call and doc' = "listing ''101''"] a b c truthy_listing [of "''101''"]
  show ?thesis by simp
qed

lemma resumed_has_success: "has_success resumed_scraper (property_id (listing ''101''))"
  by (simp add: has_success_def resumed_scraper_def initial_scraper_def listing_def
      scraped_record_def)

text \<open>
  C6 at a scraper that resumes with a successful record for listing 101.
\<close>

theorem successful_item_witness:
  "has_success resumed_scraper (property_id (listing ''101''))
   \<and> truthy (detailed_url (listing ''101''))
   \<and> process_property identity_table challenge_call (listing ''101'') resumed_scraper
       = (True, resumed_scraper\<lparr>stats_skipped := 1\<rparr>)
   \<and> requests_sent
        (snd (process_property identity_table challenge_call (listing ''101'') resumed_scraper))
       = []
   \<and> details_coll
        (snd (process_property identity_table challenge_call (listing ''101'') resumed_scraper))
       = details_coll resumed_scraper
   \<and> properties_coll
        (snd (process_property identity_table challenge_call (listing ''101'') resumed_scraper))
       = [listing ''101'']"
proof -
  have c: "stats_skipped resumed_scraper = 0" "requests_sent resumed_scraper = []"
    "properties_coll resumed_scraper = [listing ''101'']"
    by (simp_all add: resumed_scraper_def initial_scraper_def)
  from successful_item_skipped [OF resumed_has_success, where tbl = identity_table
      and env = challenge_call and env' = challenge_call and x = "listing ''101''"
      and limit = None and skip = 0 and coll = "[]"]
    resumed_has_success truthy_listing [of "''101''"] c
  show ?thesis by simp
qed



section \<open>Properties of the incremental scraper\<close>

lemma extract_none_iff:
  "extract_property_from_item lib el p now = None \<longleftrightarrow> isl (item_id lib el)"
  by (simp add: extract_property_from_item_def item_id_def split: sum.splits)

lemma kind_unreadable:
  "elt_kind lib coll el = Unreadable \<longleftrightarrow> extract_property_from_item lib el p now = None"
  by (auto simp: elt_kind_def extract_none_iff split: sum.splits)

lemma kind_of_doc:
  "extract_property_from_item lib el p now = Some d \<Longrightarrow>
   elt_kind lib coll el = (if property_exists coll (hd_property_id d) then Known else New)"
  by (auto simp: elt_kind_def dest: prop_id_item_id)

lemma process_elts_new:
  assumes "elt_kind lib coll el = New"
  shows "\<exists>d. extract_property_from_item lib el p now = Some d
     \<and> process_elts lib coll p now (el # els) (np, res, c) =
         process_elts lib coll p now els (np @ [d], res\<lparr>pr_new := pr_new res + 1\<rparr>, 0)"
proof (cases "extract_property_from_item lib el p now")
  case None
  with assms kind_unreadable [of lib coll el p now] show ?thesis by simp
next
  case (Some d)
  with assms kind_of_doc [OF Some, of coll] show ?thesis
    by (simp split: if_splits)
qed

lemma process_elts_known_stop:
  assumes "elt_kind lib coll el = Known" "CONSECUTIVE_EXISTING_LIMIT \<le> c + 1"
  shows "process_elts lib coll p now (el # els) (np, res, c) =
     (np, res\<lparr>pr_existing := pr_existing res + 1\<rparr>, c + 1)"
proof (cases "extract_property_from_item lib el p now")
  case None
  with assms kind_unreadable [of lib coll el p now] show ?thesis by simp
next
  case (Some d)
  with assms kind_of_doc [OF Some, of coll] show ?thesis
    by (simp split: if_splits)
qed

lemma process_elts_scan:
  "snd (snd (process_elts lib coll p now elts (np, res, c))) =
   scan c (map (elt_kind lib coll) elts)"
proof (induction elts arbitrary: np res c)
  case Nil
  then show ?case by simp
next
  case (Cons el els)
  show ?case
  proof (cases "extract_property_from_item lib el p now")
    case None
    with kind_unreadable [of lib coll el p now] have "elt_kind lib coll el = Unreadable"
      by simp
    with None Cons.IH show ?thesis by simp
  next
    case (Some d)
    with kind_of_doc [OF Some, of coll] Cons.IH show ?thesis
      by simp
  qed
qed

lemma scan_filter: "scan c (filter (\<lambda>k. k \<noteq> Unreadable) ks) = scan c ks"
  by (induction c ks rule: scan.induct) simp_all

lemma scan_readable:
  "Unreadable \<notin> set rs \<Longrightarrow>
   (2 \<le> scan 0 rs \<longleftrightarrow> sublist [Known, Known] rs)
   \<and> (2 \<le> scan 1 rs \<longleftrightarrow> prefix [Known] rs \<or> sublist [Known, Known] rs)"
proof (induction rs)
  case Nil
  then show ?case by simp
next
  case (Cons k rs)
  then show ?case
    by (cases k) (auto simp: sublist_Cons_right CONSECUTIVE_EXISTING_LIMIT_def)
qed

lemma scan_adjacent:
  "2 \<le> scan 0 ks \<longleftrightarrow> sublist [Known, Known] (filter (\<lambda>k. k \<noteq> Unreadable) ks)"
proof -
  have "Unreadable \<notin> set (filter (\<lambda>k. k \<noteq> Unreadable) ks)" by simp
  from scan_readable [OF this] show ?thesis by (simp add: scan_filter)
qed


lemma process_properties_ce:
  assumes "iter_elts (item_list_element d) = Inr elts"
  shows "\<exists>res st'. process_properties lib (PDict d) p now st = Inr (res, st')
     \<and> stats_consecutive_existing st' =
         (if 2 \<le> scan 0 (map (elt_kind lib (is_coll st)) elts)
          then scan 0 (map (elt_kind lib (is_coll st)) elts)
          else stats_consecutive_existing st)
     \<and> is_requests st' = is_requests st
     \<and> shutdown_requested st' = shutdown_requested st
     \<and> pages_scraped st' = pages_scraped st"
proof (cases "elts = []")
  case True
  with assms show ?thesis
    by (simp add: process_properties_def)
next
  case False
  obtain np res c where t: "process_elts lib (is_coll st) p now elts ([], no_result, 0)
      = (np, res, c)"
    by (cases "process_elts lib (is_coll st) p now elts ([], no_result, 0)") auto
  from process_elts_scan [of lib "is_coll st" p now elts "[]" no_result 0] t
  have c: "c = scan 0 (map (elt_kind lib (is_coll st)) elts)" by simp
  from assms False t show ?thesis
    unfolding c [symmetric]
    by (simp add: process_properties_def CONSECUTIVE_EXISTING_LIMIT_def)
qed

lemma process_page_frame:
  "is_requests (snd (process_page lib p env st)) = is_requests st @ [p]
   \<and> shutdown_requested (snd (process_page lib p env st)) = shutdown_requested st
   \<and> pages_scraped (snd (process_page lib p env st)) = pages_scraped st"
proof (cases "pe_response env")
  case RequestError
  then show ?thesis by (simp add: process_page_def Let_def)
next
  case (Response c html)
  show ?thesis
  proof (cases "pe_ldjson env")
    case (Inl e)
    with Response show ?thesis by (simp add: process_page_def Let_def)
  next
    case (Inr ldjson)
    show ?thesis
    proof (cases ldjson)
      case (PDict d)
      show ?thesis
      proof (cases "iter_elts (item_list_element d)")
        case (Inl e)
        with Response Inr PDict show ?thesis
          by (simp add: process_page_def Let_def process_properties_def)
      next
        case (Inr elts)
        from process_properties_ce [OF Inr, of lib p "pe_now env"
            "st\<lparr>is_requests := is_requests st @ [p]\<rparr>"]
        show ?thesis
          using Response \<open>pe_ldjson env = Inr ldjson\<close> PDict
          by (auto simp: process_page_def Let_def)
      qed
    qed (use Response Inr in \<open>simp_all add: process_page_def Let_def process_properties_def\<close>)
  qed
qed

lemma process_page_stop_iff:
  "2 \<le> stats_consecutive_existing (snd (process_page lib p env st)) \<longleftrightarrow>
     2 \<le> stats_consecutive_existing st
     \<or> sublist [Known, Known] (readable_kinds lib (is_coll st) env)"
proof (cases "pe_response env")
  case RequestError
  then show ?thesis
    by (simp add: process_page_def Let_def readable_kinds_def page_elts_def)
next
  case (Response c html)
  show ?thesis
  proof (cases "pe_ldjson env")
    case (Inl e)
    with Response show ?thesis
      by (simp add: process_page_def Let_def readable_kinds_def page_elts_def)
  next
    case (Inr ldjson)
    show ?thesis
    proof (cases ldjson)
      case (PDict d)
      show ?thesis
      proof (cases "iter_elts (item_list_element d)")
        case (Inl e)
        with Response Inr PDict show ?thesis
          by (simp add: process_page_def Let_def process_properties_def readable_kinds_def
              page_elts_def)
      next
        case (Inr elts)
        have e: "d = [] \<Longrightarrow> elts = []"
          using Inr by (simp add: item_list_element_def dict_get_def)
        from process_properties_ce [OF Inr, of lib p "pe_now env"
            "st\<lparr>is_requests := is_requests st @ [p]\<rparr>"]
        show ?thesis
          using Response \<open>pe_ldjson env = Inr ldjson\<close> PDict Inr e
          by (auto simp: process_page_def Let_def readable_kinds_def page_elts_def
              scan_adjacent)
      qed
    qed (use Response Inr in \<open>simp_all add: process_page_def Let_def process_properties_def
          readable_kinds_def page_elts_def\<close>)
  qed
qed


lemma re_search_details:
  assumes "ds \<noteq> []" "\<forall>c \<in> set ds. is_digit lib c"
  shows "re_search lib (str ''details-'' @ ds @ str ''.html'') = Some ds"
proof -
  have l: "length (str ''details-'') = 8" by (simp add: str_def)
  have nd: "\<not> is_digit lib 46" by (simp add: is_digit_def)
  have h: "str ''.html'' = 46 # str ''html''" by (simp add: str_def)
  from assms(2) have tw: "takeWhile (is_digit lib) (ds @ str ''.html'') = ds"
    by (simp add: takeWhile_append2 h nd)
  from assms(2) have dw: "dropWhile (is_digit lib) (ds @ str ''.html'') = str ''.html''"
    by (simp add: dropWhile_append2 h nd)
  have m: "match_here lib (str ''details-'' @ ds @ str ''.html'') = Some ds"
    using assms(1) by (simp add: match_here_def l tw dw)
  obtain c cs where cs: "str ''details-'' @ ds @ str ''.html'' = c # cs"
    by (cases "str ''details-'' @ ds @ str ''.html''") (simp_all add: str_def)
  with m show ?thesis by simp
qed

lemma item_head_entry:
  assumes "str pid \<noteq> []" "\<forall>c \<in> set (str pid). is_digit lib c"
  shows "item_head lib (entry pid) =
     Inr \<lparr>ih_pos = PNum 1, ih_url = PStr (str ''details-'' @ str pid @ str ''.html''),
          ih_price = PNone, ih_pid = str pid\<rparr>"
proof -
  let ?u = "str ''details-'' @ str pid @ str ''.html''"
  have ne: "?u \<noteq> []" by (simp add: str_def)
  have u: "main_url [(str ''url'', PStr ?u)] = PStr ?u"
    using ne by (simp add: main_url_def dict_get_def)
  have pr: "main_price [(str ''url'', PStr ?u)] = Inr PNone"
    by (simp add: main_price_def str_def)
  have r: "resolve_id lib (PStr ?u) (PDict [(str ''url'', PStr ?u)]) = Inr (str pid)"
    by (rule resolve_id_match [OF re_search_details [OF assms]])
  have k: "str ''mainEntity'' \<noteq> str ''position''" by (simp add: str_def)
  show ?thesis
    using u pr r k ne
    by (simp add: item_head_def entry_def dict_get_def Let_def del: append_is_Nil_conv)
qed

lemma extract_entry:
  assumes "str pid \<noteq> []" "\<forall>c \<in> set (str pid). is_digit lib c"
  shows "extract_property_from_item lib (entry pid) p now = Some (entry_doc pid p now)"
  by (simp add: extract_property_from_item_def item_head_entry [OF assms] entry_doc_def)

lemma item_id_entry:
  assumes "str pid \<noteq> []" "\<forall>c \<in> set (str pid). is_digit lib c"
  shows "item_id lib (entry pid) = Inr (str pid)"
  by (simp add: item_id_def item_head_entry [OF assms])

lemma digits_samples:
  "str ''101'' \<noteq> [] \<and> (\<forall>c \<in> set (str ''101''). is_digit lib c)"
  "str ''102'' \<noteq> [] \<and> (\<forall>c \<in> set (str ''102''). is_digit lib c)"
  "str ''103'' \<noteq> [] \<and> (\<forall>c \<in> set (str ''103''). is_digit lib c)"
  "str ''201'' \<noteq> [] \<and> (\<forall>c \<in> set (str ''201''). is_digit lib c)"
  "str ''202'' \<noteq> [] \<and> (\<forall>c \<in> set (str ''202''). is_digit lib c)"
  "str ''203'' \<noteq> [] \<and> (\<forall>c \<in> set (str ''203''). is_digit lib c)"
  "str ''301'' \<noteq> [] \<and> (\<forall>c \<in> set (str ''301''). is_digit lib c)"
  "str ''302'' \<noteq> [] \<and> (\<forall>c \<in> set (str ''302''). is_digit lib c)"
  by (simp_all add: str_def is_digit_def)

lemmas extract_samples =
  extract_entry [OF conjunct1 [OF digits_samples(1)] conjunct2 [OF digits_samples(1)]]
  extract_entry [OF conjunct1 [OF digits_samples(2)] conjunct2 [OF digits_samples(2)]]
  extract_entry [OF conjunct1 [OF digits_samples(3)] conjunct2 [OF digits_samples(3)]]
  extract_entry [OF conjunct1 [OF digits_samples(4)] conjunct2 [OF digits_samples(4)]]
  extract_entry [OF conjunct1 [OF digits_samples(5)] conjunct2 [OF digits_samples(5)]]
  extract_entry [OF conjunct1 [OF digits_samples(6)] conjunct2 [OF digits_samples(6)]]
  extract_entry [OF conjunct1 [OF digits_samples(7)] conjunct2 [OF digits_samples(7)]]
  extract_entry [OF conjunct1 [OF digits_samples(8)] conjunct2 [OF digits_samples(8)]]


lemma str_eq_iff: "str a = str b \<longleftrightarrow> a = b"
proof -
  have "inj (of_char :: char \<Rightarrow> nat)"
    by (rule injI) simp
  then show ?thesis
    by (simp add: str_def inj_map_eq_map)
qed

lemma process_page_listing:
  assumes "pids \<noteq> []"
  shows "process_page lib p (listing_page pids) st =
     (case process_elts lib (is_coll st) p 7 (map entry pids) ([], no_result, 0) of
        (np, res, c) \<Rightarrow>
          (res,
           st\<lparr>is_requests := is_requests st @ [p],
              is_coll := (if np \<noteq> [] then bulk_insert_properties np (is_coll st)
                          else is_coll st),
              stats_consecutive_existing :=
                (if 2 \<le> c then c else stats_consecutive_existing st)\<rparr>))"
  using assms
  by (simp add: process_page_def listing_page_def process_properties_def Let_def
      item_list_element_def dict_get_def CONSECUTIVE_EXISTING_LIMIT_def split: prod.splits)

lemma keyed_entry_doc: "keyed (entry_doc pid p now)"
  by (simp add: keyed_def entry_doc_def)

lemma key_entry_doc: "upsert_key (entry_doc pid p now) = str pid"
  "hd_property_id (entry_doc pid p now) = str pid"
  by (simp_all add: entry_doc_def)

lemma exists_known_store:
  "property_exists known_store pid \<longleftrightarrow> pid \<in> {str ''101'', str ''102'', str ''103''}"
  by (auto simp: property_exists_def find_one_def known_store_def listing_def str_eq_iff)

lemma exists_bulk_insert:
  "list_all keyed docs \<Longrightarrow>
   property_exists (bulk_insert_properties docs coll) pid \<longleftrightarrow>
     pid \<in> upsert_key ` set docs \<or> property_exists coll pid"
  by (simp add: bulk_insert_properties_def exists_fold)

lemma delta_page1:
  "process_page toy_lib 1 (delta_stream 1) (initial_inc_state known_store) =
     (\<lparr>pr_new = 3, pr_existing = 0, pr_errors = 0\<rparr>,
      (initial_inc_state known_store)
        \<lparr>is_requests := [1],
         is_coll := bulk_insert_properties
           [entry_doc ''201'' 1 7, entry_doc ''202'' 1 7, entry_doc ''203'' 1 7] known_store\<rparr>)"
  by (simp add: delta_stream_def process_page_listing extract_samples key_entry_doc
      exists_known_store str_eq_iff CONSECUTIVE_EXISTING_LIMIT_def no_result_def
      initial_inc_state_def)


lemma upt_1_51_two: "[1 ..< Suc 50] = 1 # 2 # [3 ..< 51]"
  by (simp add: upt_conv_Cons)

lemma run_pages_step:
  assumes "\<not> shutdown_requested st" "process_page lib p (world p) st = (res, st1)"
  shows "run_pages lib world (p # rest) st =
     (if CONSECUTIVE_EXISTING_LIMIT \<le> stats_consecutive_existing st1
      then (st1\<lparr>pages_scraped := pages_scraped st1 + 1,
                new_properties := new_properties st1 + pr_new res,
                existing_properties := existing_properties st1 + pr_existing res,
                shutdown_requested := shutdown_requested st1 \<or> pe_signal (world p)\<rparr>, True)
      else run_pages lib world rest
             (st1\<lparr>pages_scraped := pages_scraped st1 + 1,
                  new_properties := new_properties st1 + pr_new res,
                  existing_properties := existing_properties st1 + pr_existing res,
                  shutdown_requested := shutdown_requested st1 \<or> pe_signal (world p)\<rparr>))"
  using assms by (simp add: Let_def)

lemma delta_page2:
  "process_page toy_lib 2 (delta_stream 2)
     ((initial_inc_state known_store)
        \<lparr>is_requests := [1],
         is_coll := bulk_insert_properties
           [entry_doc ''201'' 1 7, entry_doc ''202'' 1 7, entry_doc ''203'' 1 7] known_store,
         pages_scraped := 1, new_properties := 3, existing_properties := 0,
         shutdown_requested := False\<rparr>) =
     (\<lparr>pr_new = 0, pr_existing = 2, pr_errors = 0\<rparr>,
      (initial_inc_state known_store)
        \<lparr>is_requests := [1, 2],
         is_coll := bulk_insert_properties
           [entry_doc ''201'' 1 7, entry_doc ''202'' 1 7, entry_doc ''203'' 1 7] known_store,
         pages_scraped := 1, new_properties := 3, existing_properties := 0,
         shutdown_requested := False, stats_consecutive_existing := 2\<rparr>)"
  by (simp add: delta_stream_def process_page_listing extract_samples key_entry_doc
      exists_known_store exists_bulk_insert keyed_entry_doc str_eq_iff
      CONSECUTIVE_EXISTING_LIMIT_def no_result_def initial_inc_state_def)

lemma delta_run:
  "run_incremental toy_lib delta_stream 50 known_store =
     (\<lparr>is_coll = bulk_insert_properties
           [entry_doc ''201'' 1 7, entry_doc ''202'' 1 7, entry_doc ''203'' 1 7] known_store,
       pages_scraped = 2, new_properties = 3, existing_properties = 2,
       stats_consecutive_existing = 2, stats_errors = [], is_requests = [1, 2],
       shutdown_requested = False\<rparr>, ConsecutiveExisting)"
proof -
  let ?st0 = "initial_inc_state known_store"
  let ?coll = "bulk_insert_properties
           [entry_doc ''201'' 1 7, entry_doc ''202'' 1 7, entry_doc ''203'' 1 7] known_store"
  let ?st1 = "?st0\<lparr>is_requests := [1], is_coll := ?coll\<rparr>"
  let ?st1' = "?st0\<lparr>is_requests := [1], is_coll := ?coll,
         pages_scraped := 1, new_properties := 3, existing_properties := 0,
         shutdown_requested := False\<rparr>"
  let ?st2 = "?st0\<lparr>is_requests := [1, 2], is_coll := ?coll,
         pages_scraped := 1, new_properties := 3, existing_properties := 0,
         shutdown_requested := False, stats_consecutive_existing := 2\<rparr>"
  have sig: "pe_signal (delta_stream n) = False" for n
    by (simp add: delta_stream_def listing_page_def not_found_def)
  have i: "\<not> shutdown_requested ?st0" "\<not> shutdown_requested ?st1'"
    by (simp_all add: initial_inc_state_def)
  have a: "run_pages toy_lib delta_stream (1 # 2 # [3 ..< 51]) ?st0 =
      run_pages toy_lib delta_stream (2 # [3 ..< 51]) ?st1'"
    unfolding run_pages_step [where world = delta_stream and p = 1, OF i(1) delta_page1]
    by (simp add: sig initial_inc_state_def CONSECUTIVE_EXISTING_LIMIT_def
        del: run_pages.simps upt_Suc)
  have b: "run_pages toy_lib delta_stream (2 # [3 ..< 51]) ?st1' =
      (?st2\<lparr>pages_scraped := 2, existing_properties := 2\<rparr>, True)"
    unfolding run_pages_step [where world = delta_stream and p = 2, OF i(2) delta_page2]
    by (simp add: sig initial_inc_state_def CONSECUTIVE_EXISTING_LIMIT_def
        del: run_pages.simps upt_Suc)
  show ?thesis
    unfolding run_incremental_def upt_1_51_two a b
    by (simp add: initial_inc_state_def)
qed

lemma ids_known_store:
  "map property_id known_store = [str ''101'', str ''102'', str ''103'']"
  by (simp add: known_store_def listing_def)

lemma delta_ids:
  "map property_id (bulk_insert_properties
      [entry_doc ''201'' 1 7, entry_doc ''202'' 1 7, entry_doc ''203'' 1 7] known_store)
   = map str [''101'', ''102'', ''103'', ''201'', ''202'', ''203'']"
  by (simp add: bulk_insert_properties_def ids_update_one keyed_entry_doc key_entry_doc
      ids_known_store str_eq_iff)


lemma run_pages_stops:
  assumes "\<not> shutdown_requested st"
    "CONSECUTIVE_EXISTING_LIMIT \<le> stats_consecutive_existing (snd (process_page lib p (world p) st))"
  shows "snd (run_pages lib world (p # rest) st) = True
     \<and> is_requests (fst (run_pages lib world (p # rest) st)) = is_requests st @ [p]"
proof -
  obtain res st1 where r: "process_page lib p (world p) st = (res, st1)"
    by (cases "process_page lib p (world p) st")
  from process_page_frame [of lib p "world p" st] r
  have "is_requests st1 = is_requests st @ [p]" by simp
  with assms r show ?thesis
    unfolding run_pages_step [where world = world and p = p, OF assms(1) r]
    by simp
qed

lemma two_pages_no_stop:
  assumes "stats_consecutive_existing st < 2" "\<not> shutdown_requested st"
    "\<not> pe_signal (world p)"
    "\<not> sublist [Known, Known] (readable_kinds lib (is_coll st) (world p))"
    "\<not> sublist [Known, Known]
         (readable_kinds lib (is_coll (snd (process_page lib p (world p) st))) (world q))"
  shows "snd (run_pages lib world [p, q] st) = False
     \<and> is_requests (fst (run_pages lib world [p, q] st)) = is_requests st @ [p, q]"
proof -
  obtain res1 st1 where r1: "process_page lib p (world p) st = (res1, st1)"
    by (cases "process_page lib p (world p) st")
  let ?st1 = "st1\<lparr>pages_scraped := pages_scraped st1 + 1,
                  new_properties := new_properties st1 + pr_new res1,
                  existing_properties := existing_properties st1 + pr_existing res1,
                  shutdown_requested := shutdown_requested st1 \<or> pe_signal (world p)\<rparr>"
  from process_page_stop_iff [of lib p "world p" st] r1 assms(1,4)
  have c1: "\<not> 2 \<le> stats_consecutive_existing st1" by simp
  from process_page_frame [of lib p "world p" st] r1 assms(2,3)
  have f1: "is_requests st1 = is_requests st @ [p]" "\<not> shutdown_requested ?st1"
    by simp_all
  obtain res2 st2 where r2: "process_page lib q (world q) ?st1 = (res2, st2)"
    by (cases "process_page lib q (world q) ?st1")
  from assms(5) r1 have "\<not> sublist [Known, Known] (readable_kinds lib (is_coll ?st1) (world q))"
    by simp
  with process_page_stop_iff [of lib q "world q" ?st1] r2 c1
  have c2: "\<not> 2 \<le> stats_consecutive_existing st2" by simp
  from process_page_frame [of lib q "world q" ?st1] r2 f1
  have f2: "is_requests st2 = is_requests st @ [p, q]" by simp
  have "run_pages lib world [p, q] st = run_pages lib world [q] ?st1"
    unfolding run_pages_step [where world = world and p = p, OF assms(2) r1]
    using c1 by (simp add: CONSECUTIVE_EXISTING_LIMIT_def)
  also have "\<dots> = (st2\<lparr>pages_scraped := pages_scraped st2 + 1,
                  new_properties := new_properties st2 + pr_new res2,
                  existing_properties := existing_properties st2 + pr_existing res2,
                  shutdown_requested := shutdown_requested st2 \<or> pe_signal (world q)\<rparr>, False)"
    unfolding run_pages_step [where world = world and p = q, OF f1(2) r2]
    using c2 by (simp add: CONSECUTIVE_EXISTING_LIMIT_def)
  finally show ?thesis using f2 by simp
qed


lemma page_elts_listing: "page_elts (listing_page pids) = map entry pids"
  by (cases pids)
     (simp_all add: page_elts_def listing_page_def item_list_element_def dict_get_def)

lemmas item_id_samples =
  item_id_entry [OF conjunct1 [OF digits_samples(1)] conjunct2 [OF digits_samples(1)]]
  item_id_entry [OF conjunct1 [OF digits_samples(2)] conjunct2 [OF digits_samples(2)]]
  item_id_entry [OF conjunct1 [OF digits_samples(3)] conjunct2 [OF digits_samples(3)]]
  item_id_entry [OF conjunct1 [OF digits_samples(4)] conjunct2 [OF digits_samples(4)]]
  item_id_entry [OF conjunct1 [OF digits_samples(5)] conjunct2 [OF digits_samples(5)]]
  item_id_entry [OF conjunct1 [OF digits_samples(6)] conjunct2 [OF digits_samples(6)]]
  item_id_entry [OF conjunct1 [OF digits_samples(7)] conjunct2 [OF digits_samples(7)]]
  item_id_entry [OF conjunct1 [OF digits_samples(8)] conjunct2 [OF digits_samples(8)]]

text \<open>
  C2, as the code has it. On the page stream of the specification's test (three new items, then two known
  ones, then one known one) the incremental run stops after the second page for the reason
  \<open>consecutive_existing\<close>: the pages 1 and 2 are requested and the third is not, 3 new and 2
  existing items are counted, and the collection holds the three known items and the three
  new ones. In the entry loop a new item sets the counter to 0; a known item that brings it
  to the limit ends the loop with the rest of the page unread; and a page that leaves the
  run's counter at the limit ends the run with no further request.
\<close>

theorem delta_crawl_stops:
  "pages_scraped (fst (run_incremental toy_lib delta_stream 50 known_store)) = 2
   \<and> is_requests (fst (run_incremental toy_lib delta_stream 50 known_store)) = [1, 2]
   \<and> new_properties (fst (run_incremental toy_lib delta_stream 50 known_store)) = 3
   \<and> existing_properties (fst (run_incremental toy_lib delta_stream 50 known_store)) = 2
   \<and> snd (run_incremental toy_lib delta_stream 50 known_store) = ConsecutiveExisting
   \<and> map property_id (is_coll (fst (run_incremental toy_lib delta_stream 50 known_store)))
       = map str [''101'', ''102'', ''103'', ''201'', ''202'', ''203'']
   \<and> (elt_kind lib coll el = New \<longrightarrow>
        (\<exists>d. extract_property_from_item lib el p now = Some d
          \<and> process_elts lib coll p now (el # els) (np, res, c) =
              process_elts lib coll p now els
                (np @ [d], res\<lparr>pr_new := pr_new res + 1\<rparr>, 0)))
   \<and> (elt_kind lib coll el = Known \<and> CONSECUTIVE_EXISTING_LIMIT \<le> c + 1 \<longrightarrow>
        process_elts lib coll p now (el # els) (np, res, c) =
          (np, res\<lparr>pr_existing := pr_existing res + 1\<rparr>, c + 1))
   \<and> (\<not> shutdown_requested st
        \<and> CONSECUTIVE_EXISTING_LIMIT
            \<le> stats_consecutive_existing (snd (process_page lib p (world p) st)) \<longrightarrow>
        snd (run_pages lib world (p # rest) st) = True
        \<and> is_requests (fst (run_pages lib world (p # rest) st)) = is_requests st @ [p])"
proof -
  have a: "pages_scraped (fst (run_incremental toy_lib delta_stream 50 known_store)) = 2
   \<and> is_requests (fst (run_incremental toy_lib delta_stream 50 known_store)) = [1, 2]
   \<and> new_properties (fst (run_incremental toy_lib delta_stream 50 known_store)) = 3
   \<and> existing_properties (fst (run_incremental toy_lib delta_stream 50 known_store)) = 2
   \<and> snd (run_incremental toy_lib delta_stream 50 known_store) = ConsecutiveExisting
   \<and> map property_id (is_coll (fst (run_incremental toy_lib delta_stream 50 known_store)))
       = map str [''101'', ''102'', ''103'', ''201'', ''202'', ''203'']"
    unfolding delta_run using delta_ids by simp
  note b = process_elts_new [of lib coll el p now els np res c]
  note c = process_elts_known_stop [of lib coll el c p now els np res]
  note d = run_pages_stops [of st lib p world rest]
  show ?thesis
  proof (intro conjI impI)
    assume "elt_kind lib coll el = New"
    then show "\<exists>d. extract_property_from_item lib el p now = Some d
          \<and> process_elts lib coll p now (el # els) (np, res, c) =
              process_elts lib coll p now els
                (np @ [d], res\<lparr>pr_new := pr_new res + 1\<rparr>, 0)"
      by (rule b)
  next
    assume "elt_kind lib coll el = Known \<and> CONSECUTIVE_EXISTING_LIMIT \<le> c + 1"
    then show "process_elts lib coll p now (el # els) (np, res, c) =
          (np, res\<lparr>pr_existing := pr_existing res + 1\<rparr>, c + 1)"
      using c by simp
  next
    assume h: "\<not> shutdown_requested st
        \<and> CONSECUTIVE_EXISTING_LIMIT
            \<le> stats_consecutive_existing (snd (process_page lib p (world p) st))"
    with d show "snd (run_pages lib world (p # rest) st) = True" by simp
    from h d show "is_requests (fst (run_pages lib world (p # rest) st)) = is_requests st @ [p]"
      by simp
  qed (use a in simp_all)
qed

text \<open>
  C2 as the specification words it, "stops after the third page", fails: on that stream the run
  has scraped two pages when it stops, and never requests the third.
\<close>

theorem third_page_counterexample:
  "pages_scraped (fst (run_incremental toy_lib delta_stream 50 known_store)) = 2
   \<and> is_requests (fst (run_incremental toy_lib delta_stream 50 known_store)) = [1, 2]
   \<and> snd (run_incremental toy_lib delta_stream 50 known_store) = ConsecutiveExisting"
  unfolding delta_run by simp

lemma kinds_known_store:
  "elt_kind toy_lib known_store (entry ''201'') = New"
  "elt_kind toy_lib known_store (entry ''301'') = New"
  "elt_kind toy_lib known_store (entry ''101'') = Known"
  "elt_kind toy_lib known_store (entry ''102'') = Known"
  by (simp_all add: elt_kind_def item_id_samples exists_known_store str_eq_iff)

text \<open>
  C2 at the entries of its stream: 201 is new and 101 and 102 are known, so that on the
  second page the entry 102 ends the loop.
\<close>

theorem delta_crawl_witness:
  "elt_kind toy_lib known_store (entry ''201'') = New
   \<and> elt_kind toy_lib known_store (entry ''102'') = Known
   \<and> CONSECUTIVE_EXISTING_LIMIT \<le> 1 + 1
   \<and> process_elts toy_lib known_store 2 7 [entry ''102'', entry ''103''] ([], no_result, 1)
       = ([], no_result\<lparr>pr_existing := pr_existing no_result + 1\<rparr>, 1 + 1)
   \<and> pages_scraped (fst (run_incremental toy_lib delta_stream 50 known_store)) = 2
   \<and> new_properties (fst (run_incremental toy_lib delta_stream 50 known_store)) = 3"
proof -
  have l: "CONSECUTIVE_EXISTING_LIMIT \<le> 1 + 1"
    by (simp add: CONSECUTIVE_EXISTING_LIMIT_def)
  from delta_crawl_stops [where lib = toy_lib and coll = known_store
      and el = "entry ''102''" and c = 1 and p = 2 and now = 7 and els = "[entry ''103'']"
      and np = "[]" and res = no_result]
    kinds_known_store l
  show ?thesis by simp
qed


lemma replicate_limit: "replicate CONSECUTIVE_EXISTING_LIMIT Known = [Known, Known]"
  by (simp add: CONSECUTIVE_EXISTING_LIMIT_def numeral_2_eq_2)

text \<open>
  C10. The counter of the entry loop starts at 0 on every page: what it reads at the end of
  a page is a function of the kinds of that page's entries alone. Hence a page leaves the
  run's stop condition set exactly when it was set before or the page itself has as many
  known items in a row as the limit says (entries that cannot be read do not break a row).
  For two consecutive pages of which neither has such a row, the run requests both and
  does not stop, whatever items end the first page and begin the second.
\<close>

theorem counter_is_per_page:
  "snd (snd (process_elts lib coll p now elts ([], no_result, 0))) =
       scan 0 (map (elt_kind lib coll) elts)
   \<and> (CONSECUTIVE_EXISTING_LIMIT \<le> stats_consecutive_existing (snd (process_page lib p env st))
        \<longleftrightarrow> CONSECUTIVE_EXISTING_LIMIT \<le> stats_consecutive_existing st
          \<or> sublist (replicate CONSECUTIVE_EXISTING_LIMIT Known)
               (readable_kinds lib (is_coll st) env))
   \<and> (stats_consecutive_existing st < CONSECUTIVE_EXISTING_LIMIT
        \<and> \<not> shutdown_requested st \<and> \<not> pe_signal (world p)
        \<and> \<not> sublist (replicate CONSECUTIVE_EXISTING_LIMIT Known)
               (readable_kinds lib (is_coll st) (world p))
        \<and> \<not> sublist (replicate CONSECUTIVE_EXISTING_LIMIT Known)
               (readable_kinds lib (is_coll (snd (process_page lib p (world p) st))) (world q))
        \<longrightarrow> snd (run_pages lib world [p, q] st) = False
          \<and> is_requests (fst (run_pages lib world [p, q] st)) = is_requests st @ [p, q])"
proof (intro conjI impI)
  show "snd (snd (process_elts lib coll p now elts ([], no_result, 0))) =
       scan 0 (map (elt_kind lib coll) elts)"
    by (rule process_elts_scan)
  show "CONSECUTIVE_EXISTING_LIMIT \<le> stats_consecutive_existing (snd (process_page lib p env st))
        \<longleftrightarrow> CONSECUTIVE_EXISTING_LIMIT \<le> stats_consecutive_existing st
          \<or> sublist (replicate CONSECUTIVE_EXISTING_LIMIT Known)
               (readable_kinds lib (is_coll st) env)"
    unfolding replicate_limit
    using process_page_stop_iff [of lib p env st]
    by (simp add: CONSECUTIVE_EXISTING_LIMIT_def)
next
  assume h: "stats_consecutive_existing st < CONSECUTIVE_EXISTING_LIMIT
        \<and> \<not> shutdown_requested st \<and> \<not> pe_signal (world p)
        \<and> \<not> sublist (replicate CONSECUTIVE_EXISTING_LIMIT Known)
               (readable_kinds lib (is_coll st) (world p))
        \<and> \<not> sublist (replicate CONSECUTIVE_EXISTING_LIMIT Known)
               (readable_kinds lib (is_coll (snd (process_page lib p (world p) st))) (world q))"
  then have "stats_consecutive_existing st < 2" "\<not> shutdown_requested st"
    "\<not> pe_signal (world p)"
    "\<not> sublist [Known, Known] (readable_kinds lib (is_coll st) (world p))"
    "\<not> sublist [Known, Known]
         (readable_kinds lib (is_coll (snd (process_page lib p (world p) st))) (world q))"
    by (simp_all add: replicate_limit) (simp add: CONSECUTIVE_EXISTING_LIMIT_def)
  from two_pages_no_stop [OF this]
  show "snd (run_pages lib world [p, q] st) = False"
    and "is_requests (fst (run_pages lib world [p, q] st)) = is_requests st @ [p, q]"
    by simp_all
qed

lemma boundary_page1:
  "process_page toy_lib 1 (boundary_stream 1) (initial_inc_state known_store) =
     (\<lparr>pr_new = 1, pr_existing = 1, pr_errors = 0\<rparr>,
      (initial_inc_state known_store)
        \<lparr>is_requests := [1],
         is_coll := bulk_insert_properties [entry_doc ''301'' 1 7] known_store\<rparr>)"
  by (simp add: boundary_stream_def process_page_listing extract_samples key_entry_doc
      exists_known_store str_eq_iff CONSECUTIVE_EXISTING_LIMIT_def no_result_def
      initial_inc_state_def)

lemma boundary_kinds:
  "readable_kinds toy_lib known_store (boundary_stream 1) = [New, Known]"
  "readable_kinds toy_lib (bulk_insert_properties [entry_doc ''301'' 1 7] known_store)
     (boundary_stream 2) = [Known, New]"
  by (simp_all add: readable_kinds_def boundary_stream_def page_elts_listing elt_kind_def
      item_id_samples exists_known_store exists_bulk_insert keyed_entry_doc key_entry_doc
      str_eq_iff)

text \<open>
  C10 at a stream whose first page ends with a known item and whose second page begins
  with one: the two known items are adjacent across the boundary, and the run goes on.
\<close>

theorem counter_per_page_witness:
  "readable_kinds toy_lib known_store (boundary_stream 1) = [New, Known]
   \<and> readable_kinds toy_lib
        (is_coll (snd (process_page toy_lib 1 (boundary_stream 1)
                         (initial_inc_state known_store))))
        (boundary_stream 2) = [Known, New]
   \<and> stats_consecutive_existing (initial_inc_state known_store) < CONSECUTIVE_EXISTING_LIMIT
   \<and> snd (run_pages toy_lib boundary_stream [1, 2] (initial_inc_state known_store)) = False
   \<and> is_requests (fst (run_pages toy_lib boundary_stream [1, 2]
                          (initial_inc_state known_store))) = [1, 2]"
proof -
  let ?st0 = "initial_inc_state known_store"
  have k: "\<not> sublist [Known, Known] [New, Known]" "\<not> sublist [Known, Known] [Known, New]"
    by (simp_all add: sublist_Cons_right)
  have i: "stats_consecutive_existing ?st0 < CONSECUTIVE_EXISTING_LIMIT"
    "\<not> shutdown_requested ?st0" "\<not> pe_signal (boundary_stream 1)"
    by (simp_all add: initial_inc_state_def CONSECUTIVE_EXISTING_LIMIT_def boundary_stream_def
        listing_page_def)
  have r: "is_requests ?st0 = []" and ic: "is_coll ?st0 = known_store"
    by (simp_all add: initial_inc_state_def)
  have c: "is_coll (snd (process_page toy_lib 1 (boundary_stream 1) ?st0))
      = bulk_insert_properties [entry_doc ''301'' 1 7] known_store"
    unfolding boundary_page1 by simp
  have prem: "stats_consecutive_existing ?st0 < CONSECUTIVE_EXISTING_LIMIT
        \<and> \<not> shutdown_requested ?st0 \<and> \<not> pe_signal (boundary_stream 1)
        \<and> \<not> sublist (replicate CONSECUTIVE_EXISTING_LIMIT Known)
               (readable_kinds toy_lib (is_coll ?st0) (boundary_stream 1))
        \<and> \<not> sublist (replicate CONSECUTIVE_EXISTING_LIMIT Known)
               (readable_kinds toy_lib
                  (is_coll (snd (process_page toy_lib 1 (boundary_stream 1) ?st0)))
                  (boundary_stream 2))"
    unfolding c ic boundary_kinds replicate_limit using i k by (intro conjI)
  have run: "snd (run_pages toy_lib boundary_stream [1, 2] ?st0) = False
          \<and> is_requests (fst (run_pages toy_lib boundary_stream [1, 2] ?st0))
              = is_requests ?st0 @ [1, 2]"
    by (rule mp [OF counter_is_per_page [where lib = toy_lib and world = boundary_stream
            and p = 1 and q = 2 and st = ?st0, THEN conjunct2, THEN conjunct2] prem])
  have k2: "readable_kinds toy_lib
        (is_coll (snd (process_page toy_lib 1 (boundary_stream 1) ?st0)))
        (boundary_stream 2) = [Known, New]"
    unfolding c by (rule boundary_kinds(2))
  from run have run': "snd (run_pages toy_lib boundary_stream [1, 2] ?st0) = False"
    "is_requests (fst (run_pages toy_lib boundary_stream [1, 2] ?st0)) = [1, 2]"
    unfolding r by simp_all
  from boundary_kinds(1) k2 i(1) run' show ?thesis by (intro conjI)
qed

section \<open>Properties of the listing harvesters\<close>

subsection \<open>The page loop of \<open>run_csv_mode\<close>\<close>

lemma csv_page_empty:
  assumes "empty_page lib li p env"
  shows "csv_page lib li p env s =
     s\<lparr>cs_requests := cs_requests s @ [p],
       consecutive_empty_pages := consecutive_empty_pages s + 1\<rparr>"
  using assms
  by (auto simp: csv_page_def empty_page_def page_items_def Let_def
      split: http_outcome.splits sum.splits if_splits)

lemma csv_page_items:
  assumes "page_items lib li p env = Some items" "items \<noteq> []"
  shows "csv_page lib li p env s =
     s\<lparr>cs_requests := cs_requests s @ [p],
       consecutive_empty_pages := 0,
       cs_coll := bulk_upsert_items items (cs_coll s),
       location_items := location_items s + length items\<rparr>"
proof -
  from assms obtain c html ldjson where
    r: "pe_response env = Response c html" "c = 200" "1000 \<le> length html"
    and l: "pe_ldjson env = Inr ldjson"
    and i: "csv_items lib li p (pe_now env) ldjson = Inr items"
    by (auto simp: page_items_def split: http_outcome.splits sum.splits if_splits)
  from i assms(2) obtain d where d: "ldjson = PDict d"
    by (cases ldjson) (auto simp: csv_items_def)
  have "d \<noteq> []"
  proof
    assume "d = []"
    with i d have "items = []"
      by (simp add: csv_items_def item_list_element_def dict_get_def)
    with assms(2) show False by simp
  qed
  with d have "truthy ldjson" by simp
  with r l i assms(2) show ?thesis
    by (simp add: csv_page_def Let_def)
qed

lemma empty_page_cases:
  "non_2xx env \<or> small_body env \<or> page_error env \<or> page_items lib li p env = None
      \<or> page_items lib li p env = Some []
   \<Longrightarrow> empty_page lib li p env"
  by (auto simp: non_2xx_def small_body_def page_error_def empty_page_def page_items_def
      split: http_outcome.splits sum.splits)

lemma csv_pages_stopped:
  "5 \<le> consecutive_empty_pages s \<Longrightarrow> csv_pages lib li world pages s = s"
  by (cases pages) simp_all

lemma csv_pages_empty_run:
  assumes "\<forall>p \<in> set ps. empty_page lib li p (world p)"
    "consecutive_empty_pages s + length ps \<le> 5"
  shows "csv_pages lib li world (ps @ rest) s =
     csv_pages lib li world rest
       (s\<lparr>cs_requests := cs_requests s @ ps,
          consecutive_empty_pages := consecutive_empty_pages s + length ps\<rparr>)"
  using assms
proof (induction ps arbitrary: s)
  case Nil
  then show ?case by simp
next
  case (Cons p ps)
  let ?s' = "s\<lparr>cs_requests := cs_requests s @ [p],
       consecutive_empty_pages := consecutive_empty_pages s + 1\<rparr>"
  from Cons.prems have e: "empty_page lib li p (world p)" and lt: "consecutive_empty_pages s < 5"
    by simp_all
  from Cons.prems have "\<forall>q \<in> set ps. empty_page lib li q (world q)"
    "consecutive_empty_pages ?s' + length ps \<le> 5"
    by simp_all
  from Cons.IH [OF this] lt csv_page_empty [OF e, of s] show ?case
    by simp
qed

subsection \<open>The page loop of \<open>run\<close> of \<open>bayut_csv_scraper.py\<close>\<close>

lemma run_page_empty:
  assumes "run_empty_page tbl lib li p env"
  shows "run_page tbl lib li p env s =
     s\<lparr>rs_requests := rs_requests s @ [p],
       rs_consecutive_empty_pages := rs_consecutive_empty_pages s + 1\<rparr>"
  using assms
  by (auto simp: run_page_def run_empty_page_def run_page_items_def Let_def
      split: http_outcome.splits sum.splits if_splits)

lemma run_page_docs:
  assumes "run_page_items tbl lib li p env = Some docs" "docs \<noteq> []"
  shows "run_page tbl lib li p env s =
     s\<lparr>rs_requests := rs_requests s @ [p],
       rs_consecutive_empty_pages := 0,
       rs_coll := bulk_upsert_items_csv docs (rs_coll s),
       rs_location_items := rs_location_items s + length docs\<rparr>"
  using assms
  by (auto simp: run_page_def run_page_items_def Let_def
      split: http_outcome.splits sum.splits if_splits)

lemma run_empty_page_cases:
  "non_2xx env \<or> small_body env \<or> blocked_body tbl env \<or> page_error env
     \<or> run_page_items tbl lib li p env = None \<or> run_page_items tbl lib li p env = Some []
   \<Longrightarrow> run_empty_page tbl lib li p env"
  by (auto simp: non_2xx_def small_body_def blocked_body_def page_error_def run_empty_page_def
      run_page_items_def split: http_outcome.splits sum.splits)

lemma run_page_loop_stopped:
  "5 \<le> rs_consecutive_empty_pages s \<Longrightarrow> run_page_loop tbl lib li world pages s = s"
  by (cases pages) simp_all

lemma run_page_loop_empty_run:
  assumes "\<forall>p \<in> set ps. run_empty_page tbl lib li p (world p)"
    "rs_consecutive_empty_pages s + length ps \<le> 5"
  shows "run_page_loop tbl lib li world (ps @ rest) s =
     run_page_loop tbl lib li world rest
       (s\<lparr>rs_requests := rs_requests s @ ps,
          rs_consecutive_empty_pages := rs_consecutive_empty_pages s + length ps\<rparr>)"
  using assms
proof (induction ps arbitrary: s)
  case Nil
  then show ?case by simp
next
  case (Cons p ps)
  let ?s' = "s\<lparr>rs_requests := rs_requests s @ [p],
       rs_consecutive_empty_pages := rs_consecutive_empty_pages s + 1\<rparr>"
  from Cons.prems have e: "run_empty_page tbl lib li p (world p)"
    and lt: "rs_consecutive_empty_pages s < 5"
    by simp_all
  from Cons.prems have "\<forall>q \<in> set ps. run_empty_page tbl lib li q (world q)"
    "rs_consecutive_empty_pages ?s' + length ps \<le> 5"
    by simp_all
  from Cons.IH [OF this] lt run_page_empty [OF e, of s] show ?case
    by simp
qed

text \<open>
  C8, on the page loops of the two CSV-driven harvesters, \<open>run_csv_mode\<close> and \<open>run\<close> of
  \<open>bayut_csv_scraper.py\<close>. In both, a response with a status outside 200 to 299, a body
  of fewer than 1000 characters, an error of the request or of the extraction, and a page
  that yields no document (none is read from it, or it lists none) each add one to the
  counter of empty pages and leave the collection as it is; a page that yields documents
  sets the counter to 0 and upserts them. Every page is of one kind or the other. In \<open>run\<close>
  a body that holds the word captcha or cloudflare adds one as well, whatever the page
  lists, and only a page without these words yields documents. When a run of empty pages
  brings the counter to 5 the loop ends: whatever pages remain, none of them is requested.
  As long as it leaves the counter below 5, a run of empty pages, errors included, is
  followed by the request of the next page.
\<close>

theorem empty_pages_stop:
  "(non_2xx env \<or> small_body env \<or> page_error env \<or> page_items lib li p env = None
      \<or> page_items lib li p env = Some []
      \<longrightarrow> csv_page lib li p env s =
            s\<lparr>cs_requests := cs_requests s @ [p],
              consecutive_empty_pages := consecutive_empty_pages s + 1\<rparr>)
   \<and> (page_items lib li p env = Some items \<and> items \<noteq> []
      \<longrightarrow> csv_page lib li p env s =
            s\<lparr>cs_requests := cs_requests s @ [p],
              consecutive_empty_pages := 0,
              cs_coll := bulk_upsert_items items (cs_coll s),
              location_items := location_items s + length items\<rparr>)
   \<and> (consecutive_empty_pages s + length ps = 5
        \<and> (\<forall>q \<in> set ps. empty_page lib li q (world q))
      \<longrightarrow> csv_pages lib li world (ps @ rest) s =
            s\<lparr>cs_requests := cs_requests s @ ps, consecutive_empty_pages := 5\<rparr>)
   \<and> (consecutive_empty_pages s + length ps < 5
        \<and> (\<forall>q \<in> set ps. empty_page lib li q (world q))
      \<longrightarrow> csv_pages lib li world (ps @ p # rest) s =
            csv_pages lib li world rest
              (csv_page lib li p (world p)
                 (s\<lparr>cs_requests := cs_requests s @ ps,
                    consecutive_empty_pages := consecutive_empty_pages s + length ps\<rparr>)))
   \<and> (non_2xx env \<or> small_body env \<or> blocked_body tbl env \<or> page_error env
        \<or> run_page_items tbl lib li p env = None
        \<or> run_page_items tbl lib li p env = Some []
      \<longrightarrow> run_page tbl lib li p env r =
            r\<lparr>rs_requests := rs_requests r @ [p],
              rs_consecutive_empty_pages := rs_consecutive_empty_pages r + 1\<rparr>)
   \<and> (run_page_items tbl lib li p env = Some docs \<and> docs \<noteq> []
      \<longrightarrow> run_page tbl lib li p env r =
            r\<lparr>rs_requests := rs_requests r @ [p],
              rs_consecutive_empty_pages := 0,
              rs_coll := bulk_upsert_items_csv docs (rs_coll r),
              rs_location_items := rs_location_items r + length docs\<rparr>)
   \<and> (rs_consecutive_empty_pages r + length ps = 5
        \<and> (\<forall>q \<in> set ps. run_empty_page tbl lib li q (world q))
      \<longrightarrow> run_page_loop tbl lib li world (ps @ rest) r =
            r\<lparr>rs_requests := rs_requests r @ ps, rs_consecutive_empty_pages := 5\<rparr>)
   \<and> (rs_consecutive_empty_pages r + length ps < 5
        \<and> (\<forall>q \<in> set ps. run_empty_page tbl lib li q (world q))
      \<longrightarrow> run_page_loop tbl lib li world (ps @ p # rest) r =
            run_page_loop tbl lib li world rest
              (run_page tbl lib li p (world p)
                 (r\<lparr>rs_requests := rs_requests r @ ps,
                    rs_consecutive_empty_pages := rs_consecutive_empty_pages r + length ps\<rparr>)))"
proof (intro conjI impI)
  assume "non_2xx env \<or> small_body env \<or> page_error env \<or> page_items lib li p env = None
      \<or> page_items lib li p env = Some []"
  then show "csv_page lib li p env s =
      s\<lparr>cs_requests := cs_requests s @ [p],
        consecutive_empty_pages := consecutive_empty_pages s + 1\<rparr>"
    by (intro csv_page_empty empty_page_cases)
next
  assume "page_items lib li p env = Some items \<and> items \<noteq> []"
  then show "csv_page lib li p env s =
      s\<lparr>cs_requests := cs_requests s @ [p],
        consecutive_empty_pages := 0,
        cs_coll := bulk_upsert_items items (cs_coll s),
        location_items := location_items s + length items\<rparr>"
    using csv_page_items [of lib li p env items s] by simp
next
  assume h: "consecutive_empty_pages s + length ps = 5
      \<and> (\<forall>q \<in> set ps. empty_page lib li q (world q))"
  then have e: "\<forall>q \<in> set ps. empty_page lib li q (world q)"
    and l: "consecutive_empty_pages s + length ps \<le> 5"
    by simp_all
  from csv_pages_empty_run [OF e l, of rest] h
  show "csv_pages lib li world (ps @ rest) s =
      s\<lparr>cs_requests := cs_requests s @ ps, consecutive_empty_pages := 5\<rparr>"
    by (simp add: csv_pages_stopped)
next
  assume h: "consecutive_empty_pages s + length ps < 5
      \<and> (\<forall>q \<in> set ps. empty_page lib li q (world q))"
  then have e: "\<forall>q \<in> set ps. empty_page lib li q (world q)"
    and l: "consecutive_empty_pages s + length ps \<le> 5"
    by simp_all
  from csv_pages_empty_run [OF e l, of "p # rest"] h
  show "csv_pages lib li world (ps @ p # rest) s =
      csv_pages lib li world rest
        (csv_page lib li p (world p)
           (s\<lparr>cs_requests := cs_requests s @ ps,
              consecutive_empty_pages := consecutive_empty_pages s + length ps\<rparr>))"
    by simp
next
  assume "non_2xx env \<or> small_body env \<or> blocked_body tbl env \<or> page_error env
      \<or> run_page_items tbl lib li p env = None
      \<or> run_page_items tbl lib li p env = Some []"
  then show "run_page tbl lib li p env r =
      r\<lparr>rs_requests := rs_requests r @ [p],
        rs_consecutive_empty_pages := rs_consecutive_empty_pages r + 1\<rparr>"
    by (intro run_page_empty run_empty_page_cases)
next
  assume "run_page_items tbl lib li p env = Some docs \<and> docs \<noteq> []"
  then show "run_page tbl lib li p env r =
      r\<lparr>rs_requests := rs_requests r @ [p],
        rs_consecutive_empty_pages := 0,
        rs_coll := bulk_upsert_items_csv docs (rs_coll r),
        rs_location_items := rs_location_items r + length docs\<rparr>"
    using run_page_docs [of tbl lib li p env docs r] by simp
next
  assume h: "rs_consecutive_empty_pages r + length ps = 5
      \<and> (\<forall>q \<in> set ps. run_empty_page tbl lib li q (world q))"
  then have e: "\<forall>q \<in> set ps. run_empty_page tbl lib li q (world q)"
    and l: "rs_consecutive_empty_pages r + length ps \<le> 5"
    by simp_all
  from run_page_loop_empty_run [OF e l, of rest] h
  show "run_page_loop tbl lib li world (ps @ rest) r =
      r\<lparr>rs_requests := rs_requests r @ ps, rs_consecutive_empty_pages := 5\<rparr>"
    by (simp add: run_page_loop_stopped)
next
  assume h: "rs_consecutive_empty_pages r + length ps < 5
      \<and> (\<forall>q \<in> set ps. run_empty_page tbl lib li q (world q))"
  then have e: "\<forall>q \<in> set ps. run_empty_page tbl lib li q (world q)"
    and l: "rs_consecutive_empty_pages r + length ps \<le> 5"
    by simp_all
  from run_page_loop_empty_run [OF e l, of "p # rest"] h
  show "run_page_loop tbl lib li world (ps @ p # rest) r =
      run_page_loop tbl lib li world rest
        (run_page tbl lib li p (world p)
           (r\<lparr>rs_requests := rs_requests r @ ps,
              rs_consecutive_empty_pages := rs_consecutive_empty_pages r + length ps\<rparr>))"
    by simp
qed

subsection \<open>Sample pages\<close>

lemma empty_not_found: "empty_page lib li p not_found"
  by (simp add: empty_page_def page_items_def not_found_def)

lemma run_empty_not_found: "run_empty_page tbl lib li p not_found"
  by (simp add: run_empty_page_def run_page_items_def not_found_def)

lemma lower_spaces: "py_lower tbl (replicate n 32) = replicate n 32"
  by (induction n) (simp_all add: py_lower_def lower_cp_def)

lemma spaces_not_blocking: "\<not> blocking_indicator tbl (replicate n 32)"
proof -
  have "\<not> sublist (str ''captcha'') (replicate n 32)"
  proof
    assume "sublist (str ''captcha'') (replicate n 32)"
    then have "set (str ''captcha'') \<subseteq> set (replicate n 32)" by (rule set_mono_sublist)
    then show False by (auto simp: str_def)
  qed
  moreover have "\<not> sublist (str ''cloudflare'') (replicate n 32)"
  proof
    assume "sublist (str ''cloudflare'') (replicate n 32)"
    then have "set (str ''cloudflare'') \<subseteq> set (replicate n 32)" by (rule set_mono_sublist)
    then show False by (auto simp: str_def)
  qed
  ultimately show ?thesis
    by (simp add: blocking_indicator_def py_in_sublist lower_spaces)
qed

lemma captcha_blocking: "blocking_indicator tbl (str ''captcha'' @ rest)"
proof -
  have "py_lower tbl (str ''captcha'') = str ''captcha''"
    by (simp add: py_lower_def lower_cp_def str_def)
  then have "sublist (str ''captcha'') (py_lower tbl (str ''captcha'' @ rest))"
    by (simp add: py_lower_append)
  then show ?thesis by (simp add: blocking_indicator_def py_in_sublist)
qed

lemma doc_from_item_entry:
  assumes "str pid \<noteq> []" "\<forall>c \<in> set (str pid). is_digit lib c"
  shows "\<exists>d. doc_from_item lib (entry pid) n t loc_info location purp = Inr d"
  by (simp add: doc_from_item_def item_head_entry [OF assms])

lemma doc_from_item_csv_entry: "\<exists>d. doc_from_item_csv lib (entry pid) n t li = Inr d"
proof -
  let ?u = "str ''details-'' @ str pid @ str ''.html''"
  have ne: "?u \<noteq> []" by (simp add: str_def)
  have u: "main_url [(str ''url'', PStr ?u)] = PStr ?u"
    using ne by (simp add: main_url_def dict_get_def)
  have pr: "main_price [(str ''url'', PStr ?u)] = Inr PNone"
    by (simp add: main_price_def str_def)
  have k: "str ''mainEntity'' \<noteq> str ''position''" by (simp add: str_def)
  show ?thesis
    using u pr k ne
    by (simp add: doc_from_item_csv_def entry_def dict_get_def Let_def
        del: append_is_Nil_conv)
qed

lemma csv_items_two:
  "\<exists>a b. csv_items toy_lib marina p t
      (PDict [(str ''itemListElement'', PList [entry ''201'', entry ''202''])]) = Inr [a, b]"
proof -
  from doc_from_item_entry [OF conjunct1 [OF digits_samples(4)] conjunct2 [OF digits_samples(4)]]
  obtain a where a: "doc_from_item toy_lib (entry ''201'') (int p) t (Some marina) None
      (str ''for-sale'') = Inr a" by blast
  from doc_from_item_entry [OF conjunct1 [OF digits_samples(5)] conjunct2 [OF digits_samples(5)]]
  obtain b where b: "doc_from_item toy_lib (entry ''202'') (int p) t (Some marina) None
      (str ''for-sale'') = Inr b" by blast
  from a b show ?thesis
    by (simp add: csv_items_def item_list_element_def dict_get_def)
qed

lemma run_items_two:
  "\<exists>a b. run_items toy_lib marina p t
      (PDict [(str ''itemListElement'', PList [entry ''201'', entry ''202''])]) = Inr [a, b]"
proof -
  from doc_from_item_csv_entry
  obtain a where a: "doc_from_item_csv toy_lib (entry ''201'') (int p) t marina = Inr a"
    by blast
  from doc_from_item_csv_entry
  obtain b where b: "doc_from_item_csv toy_lib (entry ''202'') (int p) t marina = Inr b"
    by blast
  from a b show ?thesis
    by (simp add: run_items_def item_list_element_def dict_get_def)
qed

lemma page_items_marina:
  "\<exists>a b. page_items toy_lib marina 4 (marina_stream 4) = Some [a, b]"
proof -
  from csv_items_two [of 4 7] obtain a b where
    "csv_items toy_lib marina 4 7
      (PDict [(str ''itemListElement'', PList [entry ''201'', entry ''202''])]) = Inr [a, b]"
    by blast
  then have "page_items toy_lib marina 4 (marina_stream 4) = Some [a, b]"
    by (simp add: page_items_def marina_stream_def listing_page_def)
  then show ?thesis by blast
qed

lemma run_page_items_marina:
  "\<exists>a b. run_page_items tbl toy_lib marina 4 (marina_stream 4) = Some [a, b]"
proof -
  from run_items_two [of 4 7] obtain a b where
    "run_items toy_lib marina 4 7
      (PDict [(str ''itemListElement'', PList [entry ''201'', entry ''202''])]) = Inr [a, b]"
    by blast
  then have "run_page_items tbl toy_lib marina 4 (marina_stream 4) = Some [a, b]"
    by (simp add: run_page_items_def marina_stream_def listing_page_def spaces_not_blocking)
  then show ?thesis by blast
qed

lemma marina_stream_empty:
  "q \<noteq> 4 \<Longrightarrow> empty_page lib li q (marina_stream q)"
  "q \<noteq> 4 \<Longrightarrow> run_empty_page tbl lib li q (marina_stream q)"
  by (simp_all add: marina_stream_def empty_not_found run_empty_not_found)

lemma upt_1_51: "[1 ..< Suc 50] = [1, 2, 3] @ 4 # [5, 6, 7, 8, 9] @ [10 ..< 51]"
proof -
  have "[1 ..< 1 + 9] @ [1 + 9 ..< 1 + 9 + 41] = [1 ..< 1 + 9 + 41]"
    by (simp only: upt_add_eq_append [symmetric] le_add1)
  moreover have "[1 ..< 10] = [1, 2, 3, 4, 5, 6, 7, 8, 9::nat]"
    by (simp add: upt_conv_Cons)
  ultimately show ?thesis by simp
qed

lemma process_page_not_found:
  "process_page lib p not_found st = (error_result, st\<lparr>is_requests := is_requests st @ [p]\<rparr>)"
  by (simp add: process_page_def not_found_def)

lemma run_pages_dead:
  assumes "\<not> shutdown_requested st" "stats_consecutive_existing st < CONSECUTIVE_EXISTING_LIMIT"
  shows "is_requests (fst (run_pages lib dead_stream ps st)) = is_requests st @ ps
     \<and> pages_scraped (fst (run_pages lib dead_stream ps st)) = pages_scraped st + length ps
     \<and> \<not> shutdown_requested (fst (run_pages lib dead_stream ps st))
     \<and> \<not> snd (run_pages lib dead_stream ps st)"
  using assms
proof (induction ps arbitrary: st)
  case Nil
  then show ?case by simp
next
  case (Cons p ps)
  let ?st1 = "st\<lparr>is_requests := is_requests st @ [p]\<rparr>"
  let ?st2 = "?st1\<lparr>pages_scraped := pages_scraped ?st1 + 1,
      new_properties := new_properties ?st1 + pr_new error_result,
      existing_properties := existing_properties ?st1 + pr_existing error_result,
      shutdown_requested := shutdown_requested ?st1 \<or> pe_signal (dead_stream p)\<rparr>"
  have d: "process_page lib p (dead_stream p) st = (error_result, ?st1)"
    by (simp add: dead_stream_def process_page_not_found)
  have sg: "\<not> pe_signal (dead_stream p)"
    by (simp add: dead_stream_def not_found_def)
  from Cons.prems have step:
    "run_pages lib dead_stream (p # ps) st = run_pages lib dead_stream ps ?st2"
    by (simp add: d Let_def)
  from Cons.prems sg have "\<not> shutdown_requested ?st2"
    "stats_consecutive_existing ?st2 < CONSECUTIVE_EXISTING_LIMIT"
    by simp_all
  from Cons.IH [OF this] show ?case
    unfolding step by simp
qed

text \<open>
  C8 as the specification words it fails in two ways. "The Listing Harvester stops after 5
  consecutive empty or invalid pages": the incremental harvester has no counter of empty
  pages; with 8 pages allowed and every page answering 404 it requests all 8 and ends
  because the pages are used up. "A successful page resets it": a page with status 200, a
  body of 1007 characters and one item listed, whose body holds the word captcha, sets the
  counter from 4 to 0 in \<open>run_csv_mode\<close> and from 4 to 5 in \<open>run\<close> of
  \<open>bayut_csv_scraper.py\<close>, which upserts nothing.
\<close>

theorem empty_pages_counterexample:
  "is_requests (fst (run_incremental toy_lib dead_stream 8 known_store))
     = [1, 2, 3, 4, 5, 6, 7, 8]
   \<and> pages_scraped (fst (run_incremental toy_lib dead_stream 8 known_store)) = 8
   \<and> snd (run_incremental toy_lib dead_stream 8 known_store) = Completed
   \<and> \<not> non_2xx captcha_page \<and> \<not> small_body captcha_page \<and> \<not> page_error captcha_page
   \<and> (\<exists>d. page_items toy_lib marina 1 captcha_page = Some [d])
   \<and> consecutive_empty_pages
        (csv_page toy_lib marina 1 captcha_page
           (fresh_csv_state\<lparr>consecutive_empty_pages := 4\<rparr>)) = 0
   \<and> run_page identity_table toy_lib marina 1 captcha_page
        (fresh_run_state\<lparr>rs_consecutive_empty_pages := 4\<rparr>)
      = fresh_run_state\<lparr>rs_requests := [1], rs_consecutive_empty_pages := 5\<rparr>"
proof -
  let ?st = "initial_inc_state known_store"
  have i: "\<not> shutdown_requested ?st" "stats_consecutive_existing ?st < CONSECUTIVE_EXISTING_LIMIT"
    "is_requests ?st = []" "pages_scraped ?st = 0"
    by (simp_all add: initial_inc_state_def CONSECUTIVE_EXISTING_LIMIT_def)
  have u: "[1 ..< Suc 8] = [1, 2, 3, 4, 5, 6, 7, 8]"
    by (simp add: upt_conv_Cons)
  obtain st stop where
    rp: "run_pages toy_lib dead_stream [1, 2, 3, 4, 5, 6, 7, 8] ?st = (st, stop)"
    by (cases "run_pages toy_lib dead_stream [1, 2, 3, 4, 5, 6, 7, 8] ?st")
  from run_pages_dead [OF i(1,2), of toy_lib "[1, 2, 3, 4, 5, 6, 7, 8]"] i(3,4)
  have st: "is_requests st = [1, 2, 3, 4, 5, 6, 7, 8]" "pages_scraped st = 8"
    "\<not> shutdown_requested st" "\<not> stop"
    unfolding rp by simp_all
  have "run_incremental toy_lib dead_stream 8 known_store = (st, Completed)"
    unfolding run_incremental_def u rp using st(3,4) by simp
  with st(1,2)
  have a: "is_requests (fst (run_incremental toy_lib dead_stream 8 known_store))
       = [1, 2, 3, 4, 5, 6, 7, 8]
     \<and> pages_scraped (fst (run_incremental toy_lib dead_stream 8 known_store)) = 8
     \<and> snd (run_incremental toy_lib dead_stream 8 known_store) = Completed"
    by simp
  have b: "\<not> non_2xx captcha_page" "\<not> small_body captcha_page" "\<not> page_error captcha_page"
    by (simp_all add: non_2xx_def small_body_def page_error_def captcha_page_def str_def)
  from doc_from_item_entry [OF conjunct1 [OF digits_samples(4)] conjunct2 [OF digits_samples(4)]]
  obtain d where d: "doc_from_item toy_lib (entry ''201'') (int 1) 7 (Some marina) None
      (str ''for-sale'') = Inr d" by blast
  then have ci: "csv_items toy_lib marina 1 7
      (PDict [(str ''itemListElement'', PList [entry ''201''])]) = Inr [d]"
    by (simp add: csv_items_def item_list_element_def dict_get_def)
  then have pi: "page_items toy_lib marina 1 captcha_page = Some [d]"
    by (simp add: page_items_def captcha_page_def str_def)
  then have c: "\<exists>d. page_items toy_lib marina 1 captcha_page = Some [d]" ..
  from csv_page_items [OF pi, of "fresh_csv_state\<lparr>consecutive_empty_pages := 4\<rparr>"]
  have e: "consecutive_empty_pages
        (csv_page toy_lib marina 1 captcha_page
           (fresh_csv_state\<lparr>consecutive_empty_pages := 4\<rparr>)) = 0"
    by simp
  have "blocked_body identity_table captcha_page"
    by (simp add: blocked_body_def captcha_page_def captcha_blocking)
  then have "run_empty_page identity_table toy_lib marina 1 captcha_page"
    by (intro run_empty_page_cases) simp
  from run_page_empty [OF this, of "fresh_run_state\<lparr>rs_consecutive_empty_pages := 4\<rparr>"]
  have f: "run_page identity_table toy_lib marina 1 captcha_page
        (fresh_run_state\<lparr>rs_consecutive_empty_pages := 4\<rparr>)
      = fresh_run_state\<lparr>rs_requests := [1], rs_consecutive_empty_pages := 5\<rparr>"
    by (simp add: fresh_run_state_def)
  from a b c e f show ?thesis by (intro conjI) simp_all
qed

text \<open>
  C8 at a sub-location whose pages answer 404 except the fourth, which lists two items:
  with 50 pages allowed, both CSV-driven harvesters request the pages 1 to 9 and no other.
  The three empty pages before the fourth do not stop the loop, the fourth sets the counter
  to 0, and the five empty pages after it end the loop. And at the page whose body holds
  the word captcha: \<open>run\<close> of \<open>bayut_csv_scraper.py\<close> counts it as empty.
\<close>

theorem empty_pages_witness:
  "non_2xx not_found
   \<and> csv_page toy_lib marina 1 not_found fresh_csv_state
      = fresh_csv_state\<lparr>cs_requests := [1], consecutive_empty_pages := 1\<rparr>
   \<and> (\<exists>a b. page_items toy_lib marina 4 (marina_stream 4) = Some [a, b])
   \<and> cs_requests (scrape_location toy_lib marina marina_stream 50 [])
       = [1, 2, 3, 4, 5, 6, 7, 8, 9]
   \<and> consecutive_empty_pages (scrape_location toy_lib marina marina_stream 50 []) = 5
   \<and> location_items (scrape_location toy_lib marina marina_stream 50 []) = 2
   \<and> (\<exists>a b. run_page_items identity_table toy_lib marina 4 (marina_stream 4) = Some [a, b])
   \<and> rs_requests (run_location identity_table toy_lib marina marina_stream 50 [])
       = [1, 2, 3, 4, 5, 6, 7, 8, 9]
   \<and> rs_consecutive_empty_pages (run_location identity_table toy_lib marina marina_stream 50 [])
       = 5
   \<and> rs_location_items (run_location identity_table toy_lib marina marina_stream 50 []) = 2
   \<and> blocked_body identity_table captcha_page
   \<and> run_page identity_table toy_lib marina 1 captcha_page fresh_run_state
      = fresh_run_state\<lparr>rs_requests := [1], rs_consecutive_empty_pages := 1\<rparr>"
proof -
  have nf: "non_2xx not_found"
    by (simp add: non_2xx_def not_found_def)
  then have p0: "non_2xx not_found \<or> small_body not_found \<or> page_error not_found
      \<or> page_items toy_lib marina 1 not_found = None
      \<or> page_items toy_lib marina 1 not_found = Some []"
    by simp
  have "csv_page toy_lib marina 1 not_found fresh_csv_state
      = fresh_csv_state\<lparr>cs_requests := cs_requests fresh_csv_state @ [1],
          consecutive_empty_pages := consecutive_empty_pages fresh_csv_state + 1\<rparr>"
    by (rule mp [OF empty_pages_stop [where s = fresh_csv_state and p = 1
            and env = not_found and lib = toy_lib and li = marina, THEN conjunct1] p0])
  then have t0: "csv_page toy_lib marina 1 not_found fresh_csv_state
      = fresh_csv_state\<lparr>cs_requests := [1], consecutive_empty_pages := 1\<rparr>"
    by (simp add: fresh_csv_state_def)
  text \<open>The loop of \<open>run_csv_mode\<close>.\<close>
  let ?s0 = "\<lparr>cs_coll = [], consecutive_empty_pages = 0, location_items = 0,
      cs_requests = []\<rparr>"
  let ?s3 = "?s0\<lparr>cs_requests := cs_requests ?s0 @ [1, 2, 3],
      consecutive_empty_pages := consecutive_empty_pages ?s0 + length [1, 2, 3::nat]\<rparr>"
  from page_items_marina obtain a b where
    ab: "page_items toy_lib marina 4 (marina_stream 4) = Some [a, b]" by blast
  let ?s4 = "?s3\<lparr>cs_requests := cs_requests ?s3 @ [4],
      consecutive_empty_pages := 0,
      cs_coll := bulk_upsert_items [a, b] (cs_coll ?s3),
      location_items := location_items ?s3 + length [a, b]\<rparr>"
  have p1: "consecutive_empty_pages ?s0 + length [1, 2, 3::nat] < 5
      \<and> (\<forall>q \<in> set [1, 2, 3]. empty_page toy_lib marina q (marina_stream q))"
    by (simp add: marina_stream_empty)
  have p2: "page_items toy_lib marina 4 (marina_stream 4) = Some [a, b] \<and> [a, b] \<noteq> []"
    using ab by simp
  have p3: "consecutive_empty_pages ?s4 + length [5, 6, 7, 8, 9::nat] = 5
      \<and> (\<forall>q \<in> set [5, 6, 7, 8, 9]. empty_page toy_lib marina q (marina_stream q))"
    by (simp add: marina_stream_empty)
  have t1: "csv_pages toy_lib marina marina_stream ([1, 2, 3] @ 4 # [5, 6, 7, 8, 9] @ [10 ..< 51]) ?s0
      = csv_pages toy_lib marina marina_stream ([5, 6, 7, 8, 9] @ [10 ..< 51])
          (csv_page toy_lib marina 4 (marina_stream 4) ?s3)"
    by (rule mp [OF empty_pages_stop [where s = ?s0 and ps = "[1, 2, 3]" and p = 4
            and lib = toy_lib and li = marina and world = marina_stream
            and rest = "[5, 6, 7, 8, 9] @ [10 ..< 51]",
            THEN conjunct2, THEN conjunct2, THEN conjunct2, THEN conjunct1] p1])
  have t2: "csv_page toy_lib marina 4 (marina_stream 4) ?s3 = ?s4"
    by (rule mp [OF empty_pages_stop [where s = ?s3 and p = 4 and env = "marina_stream 4"
            and lib = toy_lib and li = marina and items = "[a, b]",
            THEN conjunct2, THEN conjunct1] p2])
  have t3: "csv_pages toy_lib marina marina_stream ([5, 6, 7, 8, 9] @ [10 ..< 51]) ?s4
      = ?s4\<lparr>cs_requests := cs_requests ?s4 @ [5, 6, 7, 8, 9], consecutive_empty_pages := 5\<rparr>"
    by (rule mp [OF empty_pages_stop [where s = ?s4 and ps = "[5, 6, 7, 8, 9]"
            and lib = toy_lib and li = marina and world = marina_stream
            and rest = "[10 ..< 51]",
            THEN conjunct2, THEN conjunct2, THEN conjunct1] p3])
  have "scrape_location toy_lib marina marina_stream 50 []
      = csv_pages toy_lib marina marina_stream ([1, 2, 3] @ 4 # [5, 6, 7, 8, 9] @ [10 ..< 51]) ?s0"
    by (simp only: scrape_location_def upt_1_51)
  also note t1
  also have "csv_page toy_lib marina 4 (marina_stream 4) ?s3 = ?s4" by (rule t2)
  also note t3
  finally have csv: "scrape_location toy_lib marina marina_stream 50 []
      = ?s4\<lparr>cs_requests := cs_requests ?s4 @ [5, 6, 7, 8, 9], consecutive_empty_pages := 5\<rparr>" .
  have c1: "cs_requests (scrape_location toy_lib marina marina_stream 50 [])
       = [1, 2, 3, 4, 5, 6, 7, 8, 9]"
    and c2: "consecutive_empty_pages (scrape_location toy_lib marina marina_stream 50 []) = 5"
    and c3: "location_items (scrape_location toy_lib marina marina_stream 50 []) = 2"
    unfolding csv by simp_all
  text \<open>The loop of \<open>run\<close>.\<close>
  let ?r0 = "\<lparr>rs_coll = [], rs_consecutive_empty_pages = 0, rs_location_items = 0,
      rs_requests = []\<rparr>"
  let ?r3 = "?r0\<lparr>rs_requests := rs_requests ?r0 @ [1, 2, 3],
      rs_consecutive_empty_pages := rs_consecutive_empty_pages ?r0 + length [1, 2, 3::nat]\<rparr>"
  from run_page_items_marina obtain x y where
    xy: "run_page_items identity_table toy_lib marina 4 (marina_stream 4) = Some [x, y]"
    by blast
  let ?r4 = "?r3\<lparr>rs_requests := rs_requests ?r3 @ [4],
      rs_consecutive_empty_pages := 0,
      rs_coll := bulk_upsert_items_csv [x, y] (rs_coll ?r3),
      rs_location_items := rs_location_items ?r3 + length [x, y]\<rparr>"
  have q1: "rs_consecutive_empty_pages ?r0 + length [1, 2, 3::nat] < 5
      \<and> (\<forall>q \<in> set [1, 2, 3]. run_empty_page identity_table toy_lib marina q (marina_stream q))"
    by (simp add: marina_stream_empty)
  have q2: "run_page_items identity_table toy_lib marina 4 (marina_stream 4) = Some [x, y]
      \<and> [x, y] \<noteq> []"
    using xy by simp
  have q3: "rs_consecutive_empty_pages ?r4 + length [5, 6, 7, 8, 9::nat] = 5
      \<and> (\<forall>q \<in> set [5, 6, 7, 8, 9].
            run_empty_page identity_table toy_lib marina q (marina_stream q))"
    by (simp add: marina_stream_empty)
  note rest = conjunct2 [OF conjunct2 [OF conjunct2 [OF conjunct2]]]
  have u1: "run_page_loop identity_table toy_lib marina marina_stream
        ([1, 2, 3] @ 4 # [5, 6, 7, 8, 9] @ [10 ..< 51]) ?r0
      = run_page_loop identity_table toy_lib marina marina_stream ([5, 6, 7, 8, 9] @ [10 ..< 51])
          (run_page identity_table toy_lib marina 4 (marina_stream 4) ?r3)"
    by (rule mp [OF empty_pages_stop [where r = ?r0 and ps = "[1, 2, 3]" and p = 4
            and tbl = identity_table and lib = toy_lib and li = marina
            and world = marina_stream and rest = "[5, 6, 7, 8, 9] @ [10 ..< 51]",
            THEN rest, THEN conjunct2, THEN conjunct2, THEN conjunct2] q1])
  have u2: "run_page identity_table toy_lib marina 4 (marina_stream 4) ?r3 = ?r4"
    by (rule mp [OF empty_pages_stop [where r = ?r3 and p = 4 and env = "marina_stream 4"
            and tbl = identity_table and lib = toy_lib and li = marina and docs = "[x, y]",
            THEN rest, THEN conjunct2, THEN conjunct1] q2])
  have u3: "run_page_loop identity_table toy_lib marina marina_stream
        ([5, 6, 7, 8, 9] @ [10 ..< 51]) ?r4
      = ?r4\<lparr>rs_requests := rs_requests ?r4 @ [5, 6, 7, 8, 9],
            rs_consecutive_empty_pages := 5\<rparr>"
    by (rule mp [OF empty_pages_stop [where r = ?r4 and ps = "[5, 6, 7, 8, 9]"
            and tbl = identity_table and lib = toy_lib and li = marina
            and world = marina_stream and rest = "[10 ..< 51]",
            THEN rest, THEN conjunct2, THEN conjunct2, THEN conjunct1] q3])
  have "run_location identity_table toy_lib marina marina_stream 50 []
      = run_page_loop identity_table toy_lib marina marina_stream
          ([1, 2, 3] @ 4 # [5, 6, 7, 8, 9] @ [10 ..< 51]) ?r0"
    by (simp only: run_location_def upt_1_51)
  also note u1
  also have "run_page identity_table toy_lib marina 4 (marina_stream 4) ?r3 = ?r4" by (rule u2)
  also note u3
  finally have run: "run_location identity_table toy_lib marina marina_stream 50 []
      = ?r4\<lparr>rs_requests := rs_requests ?r4 @ [5, 6, 7, 8, 9],
            rs_consecutive_empty_pages := 5\<rparr>" .
  have d1: "rs_requests (run_location identity_table toy_lib marina marina_stream 50 [])
       = [1, 2, 3, 4, 5, 6, 7, 8, 9]"
    and d2: "rs_consecutive_empty_pages
        (run_location identity_table toy_lib marina marina_stream 50 []) = 5"
    and d3: "rs_location_items (run_location identity_table toy_lib marina marina_stream 50 [])
        = 2"
    unfolding run by simp_all
  text \<open>The page with the word captcha.\<close>
  have bl: "blocked_body identity_table captcha_page"
    by (simp add: blocked_body_def captcha_page_def captcha_blocking)
  then have q5: "non_2xx captcha_page \<or> small_body captcha_page
      \<or> blocked_body identity_table captcha_page \<or> page_error captcha_page
      \<or> run_page_items identity_table toy_lib marina 1 captcha_page = None
      \<or> run_page_items identity_table toy_lib marina 1 captcha_page = Some []"
    by simp
  have "run_page identity_table toy_lib marina 1 captcha_page fresh_run_state
      = fresh_run_state\<lparr>rs_requests := rs_requests fresh_run_state @ [1],
          rs_consecutive_empty_pages := rs_consecutive_empty_pages fresh_run_state + 1\<rparr>"
    by (rule mp [OF empty_pages_stop [where r = fresh_run_state and p = 1
            and env = captcha_page and tbl = identity_table and lib = toy_lib
            and li = marina, THEN rest, THEN conjunct1] q5])
  then have cp: "run_page identity_table toy_lib marina 1 captcha_page fresh_run_state
      = fresh_run_state\<lparr>rs_requests := [1], rs_consecutive_empty_pages := 1\<rparr>"
    by (simp add: fresh_run_state_def)
  from page_items_marina run_page_items_marina [of identity_table]
    nf t0 c1 c2 c3 d1 d2 d3 bl cp
  show ?thesis by (intro conjI)
qed

end
